theory Spec2Isabelle
  imports Main
begin

chapter \<open>Sitemap Indexer Pro: the worker subsystem\<close>

section \<open>Persistence layout (packages/db/schema/index.ts)\<close>

text \<open>
  The enums of the schema. Row identifiers are UUIDs that the database draws
  (\<^verbatim>\<open>uuid('id').primaryKey().defaultRandom()\<close>); the model numbers them, and the
  database state carries the next free number. Timestamps are instants counted from
  some epoch.
\<close>

datatype indexing_status =
    DISCOVERED | QUEUED | SUBMITTED | INDEXED | NOT_INDEXED | CRAWL_ERROR
  | BLOCKED_ROBOTS | BLOCKED_NOINDEX | REDIRECT | ERROR_4XX | ERROR_5XX | DUPLICATE

datatype job_status = PENDING | PROCESSING | COMPLETED | FAILED | CANCELLED

datatype search_engine = GOOGLE | BING | YANDEX | INDEXNOW

type_synonym uuid = nat
type_synonym timestamp = nat

text \<open>
  Table \<^verbatim>\<open>urls\<close>. The columns \<^verbatim>\<open>google_status\<close> and \<^verbatim>\<open>bing_status\<close> have a default
  but no NOT NULL constraint, so they are optional. \<^verbatim>\<open>lastmod\<close> and \<^verbatim>\<open>priority\<close> hold the
  text that the scanner hands to \<^verbatim>\<open>new Date\<close> and \<^verbatim>\<open>parseFloat\<close>.
\<close>

record url_row =
  u_id :: uuid
  u_projectId :: uuid
  sitemapId :: "uuid option"
  loc :: string
  locHash :: string
  lastmod :: "string option"
  changefreq :: "string option"
  priority :: "string option"
  googleStatus :: "indexing_status option"
  googleSubmittedAt :: "timestamp option"
  bingStatus :: "indexing_status option"
  bingSubmittedAt :: "timestamp option"
  firstSeenAt :: timestamp

text \<open>Table \<^verbatim>\<open>projects\<close>, with the cached counters that the workers maintain.\<close>

record project_row =
  p_id :: uuid
  domain :: string
  p_sitemapUrl :: string
  totalUrls :: nat
  indexedUrls :: nat
  pendingUrls :: nat
  errorUrls :: nat
  lastScanAt :: "timestamp option"
  updatedAt :: timestamp

text \<open>Table \<^verbatim>\<open>quota_usage\<close>, unique per (projectId, engine, date).\<close>

record quota_row =
  q_projectId :: uuid
  q_engine :: search_engine
  q_date :: timestamp
  used :: int
  limit :: int

text \<open>Table \<^verbatim>\<open>submissions\<close>: the columns the workers write.\<close>

record submission_row =
  s_urlId :: uuid
  s_projectId :: uuid
  s_engine :: search_engine
  s_action :: string
  s_status :: job_status
  s_responseCode :: "int option"
  s_errorMessage :: "string option"
  s_completedAt :: timestamp

text \<open>Table \<^verbatim>\<open>credentials\<close>, unique per (projectId, engine). It has no salt column.\<close>

record credential_row =
  c_projectId :: uuid
  c_engine :: search_engine
  encryptedData :: string
  iv :: string
  authTag :: string

record db =
  urls :: "url_row list"
  projects :: "project_row list"
  quotaUsage :: "quota_row list"
  submissions :: "submission_row list"
  credentials :: "credential_row list"
  nextId :: uuid

section \<open>Cached project counters (updateProjectStats)\<close>

text \<open>
  \<^verbatim>\<open>google_status IN (...)\<close>: a NULL status is in no list.
\<close>

definition google_status_in :: "indexing_status list \<Rightarrow> url_row \<Rightarrow> bool" where
  "google_status_in vs u =
     (case googleStatus u of None \<Rightarrow> False | Some s \<Rightarrow> s \<in> set vs)"

text \<open>
  The aggregate query of \<^verbatim>\<open>updateProjectStats\<close>:
  \<^verbatim>\<open>COUNT(*)\<close> and three \<^verbatim>\<open>COUNT(*) FILTER (WHERE ...)\<close> over the rows of the project.
\<close>

definition selectStats :: "url_row list \<Rightarrow> uuid \<Rightarrow> nat \<times> nat \<times> nat \<times> nat" where
  "selectStats rows projectId =
     (let mine = filter (\<lambda>u. u_projectId u = projectId) rows
      in (length mine,
          length (filter (google_status_in [INDEXED]) mine),
          length (filter (google_status_in [DISCOVERED, QUEUED]) mine),
          length (filter (google_status_in [ERROR_4XX, ERROR_5XX, CRAWL_ERROR]) mine)))"

definition updateProjectStats :: "db \<Rightarrow> uuid \<Rightarrow> timestamp \<Rightarrow> db" where
  "updateProjectStats d projectId now =
     (case selectStats (urls d) projectId of
        (tot, indexed, pending, errors) \<Rightarrow>
          d\<lparr>projects :=
              map (\<lambda>p. if p_id p = projectId
                        then p\<lparr>totalUrls := tot, indexedUrls := indexed,
                               pendingUrls := pending, errorUrls := errors,
                               lastScanAt := Some now, updatedAt := now\<rparr>
                        else p)
                  (projects d)\<rparr>)"

text \<open>A project with one URL that has been submitted to Google and one that has not.\<close>

definition url_fresh :: "uuid \<Rightarrow> uuid \<Rightarrow> string \<Rightarrow> indexing_status option \<Rightarrow> url_row" where
  "url_fresh i pid l st =
     \<lparr>u_id = i, u_projectId = pid, sitemapId = None, loc = l, locHash = l,
      lastmod = None, changefreq = None, priority = None,
      googleStatus = st, googleSubmittedAt = None,
      bingStatus = Some DISCOVERED, bingSubmittedAt = None, firstSeenAt = 0\<rparr>"

definition project_fresh :: "uuid \<Rightarrow> project_row" where
  "project_fresh pid =
     \<lparr>p_id = pid, domain = ''t'', p_sitemapUrl = ''http://t/sm.xml'',
      totalUrls = 0, indexedUrls = 0, pendingUrls = 0, errorUrls = 0,
      lastScanAt = None, updatedAt = 0\<rparr>"

definition db_submitted :: db where
  "db_submitted =
     \<lparr>urls = [url_fresh 1 7 ''http://t/x'' (Some SUBMITTED),
              url_fresh 2 7 ''http://t/y'' (Some DISCOVERED)],
      projects = [project_fresh 7],
      quotaUsage = [], submissions = [], credentials = [], nextId = 3\<rparr>"

section \<open>Quota bookkeeping\<close>

definition quota_key :: "uuid \<Rightarrow> search_engine \<Rightarrow> timestamp \<Rightarrow> quota_row \<Rightarrow> bool" where
  "quota_key projectId engine date r \<longleftrightarrow>
     q_projectId r = projectId \<and> q_engine r = engine \<and> q_date r = date"

text \<open>
  \<^verbatim>\<open>const [quota] = await db.select().from(quotaUsage).where(...).limit(1);\<close>
  \<^verbatim>\<open>const currentUsage = quota?.used ?? 0;\<close>
\<close>

definition currentUsage :: "db \<Rightarrow> uuid \<Rightarrow> search_engine \<Rightarrow> timestamp \<Rightarrow> int" where
  "currentUsage d projectId engine date =
     (case find (quota_key projectId engine date) (quotaUsage d) of
        None \<Rightarrow> 0
      | Some r \<Rightarrow> used r)"

text \<open>
  \<^verbatim>\<open>db.insert(quotaUsage).values({..., used: n, limit: l})\<close>
  \<^verbatim>\<open>  .onConflictDoUpdate({target: [projectId, engine, date], set: {used: sql`used + n`}})\<close>
  as one atomic statement: a row with the key has \<^verbatim>\<open>n\<close> added to \<^verbatim>\<open>used\<close>, otherwise a
  row with \<^verbatim>\<open>used = n\<close> is inserted.
\<close>

definition upsertQuota ::
  "uuid \<Rightarrow> search_engine \<Rightarrow> timestamp \<Rightarrow> int \<Rightarrow> int \<Rightarrow> db \<Rightarrow> db" where
  "upsertQuota projectId engine date n l d =
     (if list_ex (quota_key projectId engine date) (quotaUsage d)
      then d\<lparr>quotaUsage :=
               map (\<lambda>r. if quota_key projectId engine date r then r\<lparr>used := used r + n\<rparr> else r)
                   (quotaUsage d)\<rparr>
      else d\<lparr>quotaUsage := quotaUsage d @
               [\<lparr>q_projectId = projectId, q_engine = engine, q_date = date,
                 used = n, limit = l\<rparr>]\<rparr>)"

section \<open>Google submitter worker (googleSubmitterWorker)\<close>

text \<open>
  What the handler can throw before or instead of returning. A thrown error fails the
  queue job; a returned value completes it.
\<close>

datatype worker_error =
    ProjectNotFound
  | CredentialsNotConfigured
  | IndexNowKeyNotConfigured
  | InvalidCredential
  | QuotaExhausted
  | EmptyInsert

text \<open>
  \<^verbatim>\<open>EmptyInsert\<close> is the error of the database client when \<^verbatim>\<open>.values([])\<close> is given no row
  (\<^verbatim>\<open>values() must be called with at least one value\<close>): both submitters insert their
  submission rows without looking whether there is one.
\<close>

text \<open>The payloads of the two submission queues (\<^verbatim>\<open>projectId\<close>, \<^verbatim>\<open>jobId\<close>, \<^verbatim>\<open>urlIds\<close>, and
  for Google the \<^verbatim>\<open>action\<close>).\<close>

record indexnow_payload =
  j_projectId :: uuid
  j_jobId :: uuid
  urlIds :: "uuid list"

record google_payload = indexnow_payload +
  action :: string

text \<open>
  One call of \<^verbatim>\<open>indexing.urlNotifications.publish\<close>: the client resolves with a
  response (its status), or throws an error that carries the response status (or an
  error code) and a message.
\<close>

datatype publish_response = Published int | Thrown "int option" string

text \<open>
  The surroundings of a job: \<^verbatim>\<open>openCredential\<close> stands for \<^verbatim>\<open>decryptCredentials\<close> followed
  by \<^verbatim>\<open>JSON.parse\<close> (\<open>None\<close> when either throws), and \<^verbatim>\<open>publish n url type\<close> is the
  answer of the Indexing API to the request number \<open>n\<close> (counted from 0 over the run).
\<close>

record google_env =
  openCredential :: "credential_row \<Rightarrow> string option"
  publish :: "nat \<Rightarrow> string \<Rightarrow> string \<Rightarrow> publish_response"

record submission_result =
  r_urlId :: uuid
  success :: bool
  responseCode :: "int option"
  r_error :: "string option"

definition DAILY_QUOTA :: int where "DAILY_QUOTA = 200"

definition MAX_RETRIES :: nat where "MAX_RETRIES = 3"

text \<open>
  \<^verbatim>\<open>pRetry(fn, {retries})\<close>: the call is repeated after every failure, \<^verbatim>\<open>retries\<close> times
  at most, and the last failure is rethrown. The list \<open>tr\<close> holds the URL of every
  request sent so far, the newest last.
\<close>

primrec pRetry_publish ::
  "google_env \<Rightarrow> nat \<Rightarrow> string \<Rightarrow> string \<Rightarrow> string list \<Rightarrow> publish_response \<times> string list" where
  "pRetry_publish env 0 url act tr = (publish env (length tr) url act, tr @ [url])"
| "pRetry_publish env (Suc retries) url act tr =
     (case publish env (length tr) url act of
        Published c \<Rightarrow> (Published c, tr @ [url])
      | Thrown c m \<Rightarrow> pRetry_publish env retries url act (tr @ [url]))"

text \<open>
  \<^verbatim>\<open>submitSingleUrl\<close>: every error is caught and turned into a failed result; on 429 and
  403 a line is logged, nothing else.
\<close>

definition submitSingleUrl ::
  "google_env \<Rightarrow> uuid \<times> string \<Rightarrow> string \<Rightarrow> string list \<Rightarrow> submission_result \<times> string list" where
  "submitSingleUrl env urlRecord act tr =
     (case pRetry_publish env MAX_RETRIES (snd urlRecord) act tr of
        (Published c, tr') \<Rightarrow>
          (\<lparr>r_urlId = fst urlRecord, success = True, responseCode = Some c, r_error = None\<rparr>, tr')
      | (Thrown statusCode m, tr') \<Rightarrow>
          (\<lparr>r_urlId = fst urlRecord, success = False, responseCode = statusCode,
            r_error = Some m\<rparr>, tr'))"

text \<open>The loop \<^verbatim>\<open>for (const urlRecord of urlRecords)\<close>, one URL after the other.\<close>

fun submitAll ::
  "google_env \<Rightarrow> (uuid \<times> string) list \<Rightarrow> string \<Rightarrow> string list \<Rightarrow>
     submission_result list \<times> string list" where
  "submitAll env [] act tr = ([], tr)"
| "submitAll env (urlRecord # rest) act tr =
     (case submitSingleUrl env urlRecord act tr of
        (result, tr') \<Rightarrow>
          (case submitAll env rest act tr' of
             (results, tr'') \<Rightarrow> (result # results, tr'')))"

text \<open>\<^verbatim>\<open>db.select({id, loc}).from(urls).where(inArray(urls.id, ids))\<close>\<close>

definition selectUrlRecords :: "db \<Rightarrow> uuid list \<Rightarrow> (uuid \<times> string) list" where
  "selectUrlRecords d ids = map (\<lambda>u. (u_id u, loc u)) (filter (\<lambda>u. u_id u \<in> set ids) (urls d))"

definition submissionRecord ::
  "uuid \<Rightarrow> string \<Rightarrow> timestamp \<Rightarrow> submission_result \<Rightarrow> submission_row" where
  "submissionRecord pid act now result =
     \<lparr>s_urlId = r_urlId result, s_projectId = pid, s_engine = GOOGLE, s_action = act,
      s_status = (if success result then COMPLETED else FAILED),
      s_responseCode = responseCode result, s_errorMessage = r_error result,
      s_completedAt = now\<rparr>"

definition markGoogleSubmitted :: "uuid list \<Rightarrow> timestamp \<Rightarrow> db \<Rightarrow> db" where
  "markGoogleSubmitted successfulIds now d =
     d\<lparr>urls := map (\<lambda>u. if u_id u \<in> set successfulIds
                        then u\<lparr>googleStatus := Some SUBMITTED, googleSubmittedAt := Some now\<rparr>
                        else u) (urls d)\<rparr>"

text \<open>
  The handler of the \<^verbatim>\<open>google-submitter\<close> queue, in the two parts that it runs one
  after the other. \<open>today\<close> is the date the job computes for the quota row, \<open>now\<close> the
  instant it stamps on the rows it writes. Progress reports, logs and metrics are left
  out, and the statements sent to the database are taken to succeed, the empty insert
  apart.

  First the reads: the credential, the quota row of today, and the URL rows of the ids
  that are left after \<^verbatim>\<open>urlIds.slice(0, remainingQuota)\<close>. Nothing is written and no
  request is sent. (For an empty list of ids the client may refuse the \<^verbatim>\<open>inArray\<close> of
  this select already; the job then fails here instead of at the insert below, with the
  same effect.)
\<close>

definition prepareSubmission ::
  "google_env \<Rightarrow> google_payload \<Rightarrow> timestamp \<Rightarrow> db \<Rightarrow> worker_error + (uuid \<times> string) list" where
  "prepareSubmission env job today d =
     (case find (\<lambda>c. c_projectId c = j_projectId job \<and> c_engine c = GOOGLE) (credentials d) of
        None \<Rightarrow> Inl CredentialsNotConfigured
      | Some credential \<Rightarrow>
     (case openCredential env credential of
        None \<Rightarrow> Inl InvalidCredential
      | Some serviceAccount \<Rightarrow>
     (let remainingQuota = DAILY_QUOTA - currentUsage d (j_projectId job) GOOGLE today in
      if remainingQuota \<le> 0 then Inl QuotaExhausted
      else
        let urlsToSubmit = take (nat remainingQuota) (urlIds job)
        in Inr (selectUrlRecords d urlsToSubmit))))"

text \<open>
  Then the requests, one URL row after the other, and the three statements that record
  them: the insert of one submission row per result (which throws when there is no
  result, before anything is written), the update of the URL rows that succeeded, and the
  upsert that adds \<^verbatim>\<open>successCount\<close> to the quota row. \<open>d\<close> is the database these
  statements find. It returns what the job threw or returned (\<^verbatim>\<open>successCount\<close>,
  \<^verbatim>\<open>failCount\<close>), the database after the job and the requests sent.
\<close>

definition submitAndRecord ::
  "google_env \<Rightarrow> google_payload \<Rightarrow> timestamp \<Rightarrow> timestamp \<Rightarrow> (uuid \<times> string) list \<Rightarrow> db \<Rightarrow>
     string list \<Rightarrow> (worker_error + nat \<times> nat) \<times> db \<times> string list" where
  "submitAndRecord env job today now urlRecords d tr =
     (case submitAll env urlRecords (action job) tr of
        (results, tr') \<Rightarrow>
          let successCount = length (filter success results);
              failCount = length (filter (\<lambda>r. \<not> success r) results)
          in if results = [] then (Inl EmptyInsert, d, tr')
             else
               let d1 = d\<lparr>submissions := submissions d @
                          map (submissionRecord (j_projectId job) (action job) now) results\<rparr>;
                   successfulIds = map r_urlId (filter success results);
                   d2 = markGoogleSubmitted successfulIds now d1;
                   d3 = upsertQuota (j_projectId job) GOOGLE today (int successCount) DAILY_QUOTA d2
               in (Inr (successCount, failCount), d3, tr'))"

text \<open>
  The handler as a whole: what it read decides whether it throws there and then, or goes
  on to submit.
\<close>

definition continueSubmission ::
  "google_env \<Rightarrow> google_payload \<Rightarrow> timestamp \<Rightarrow> timestamp \<Rightarrow>
     worker_error + (uuid \<times> string) list \<Rightarrow> db \<Rightarrow> string list \<Rightarrow>
     (worker_error + nat \<times> nat) \<times> db \<times> string list" where
  "continueSubmission env job today now read d tr =
     (case read of
        Inl e \<Rightarrow> (Inl e, d, tr)
      | Inr urlRecords \<Rightarrow> submitAndRecord env job today now urlRecords d tr)"

definition googleSubmitterWorker ::
  "google_env \<Rightarrow> google_payload \<Rightarrow> timestamp \<Rightarrow> timestamp \<Rightarrow> db \<Rightarrow> string list \<Rightarrow>
     (worker_error + nat \<times> nat) \<times> db \<times> string list" where
  "googleSubmitterWorker env job today now d tr =
     continueSubmission env job today now (prepareSubmission env job today d) d tr"

text \<open>
  The worker is created with \<^verbatim>\<open>concurrency: 5\<close>: up to five jobs of the queue run at a
  time, and every \<^verbatim>\<open>await\<close> of one lets another proceed. \<^verbatim>\<open>twoJobs\<close> is the run of two jobs
  in which the second has done its reads before the first writes: both read the database
  \<open>d\<close>, then the first submits and records, then the second. It returns what each job
  returned, and the database and the requests after both.
\<close>

definition twoJobs ::
  "google_env \<Rightarrow> google_payload \<Rightarrow> google_payload \<Rightarrow> timestamp \<Rightarrow> timestamp \<Rightarrow> db \<Rightarrow>
     (worker_error + nat \<times> nat) \<times> (worker_error + nat \<times> nat) \<times> db \<times> string list" where
  "twoJobs env job1 job2 today now d =
     (let read1 = prepareSubmission env job1 today d;
          read2 = prepareSubmission env job2 today d
      in case continueSubmission env job1 today now read1 d [] of
           (res1, d1, tr1) \<Rightarrow>
             (case continueSubmission env job2 today now read2 d1 tr1 of
                (res2, d2, tr2) \<Rightarrow> (res1, res2, d2, tr2)))"

text \<open>
  The quota boundary: 198 of 200 used today, five URLs waiting, an API that accepts
  every request.
\<close>

definition env_accept :: google_env where
  "env_accept = \<lparr>openCredential = (\<lambda>c. Some ''{}''), publish = (\<lambda>n url act. Published 200)\<rparr>"

definition db_quota_198 :: db where
  "db_quota_198 =
     \<lparr>urls = [url_fresh 1 7 ''http://t/1'' (Some DISCOVERED), url_fresh 2 7 ''http://t/2'' (Some DISCOVERED),
              url_fresh 3 7 ''http://t/3'' (Some DISCOVERED), url_fresh 4 7 ''http://t/4'' (Some DISCOVERED),
              url_fresh 5 7 ''http://t/5'' (Some DISCOVERED)],
      projects = [project_fresh 7],
      quotaUsage = [\<lparr>q_projectId = 7, q_engine = GOOGLE, q_date = 20, used = 198, limit = 200\<rparr>],
      submissions = [],
      credentials = [\<lparr>c_projectId = 7, c_engine = GOOGLE, encryptedData = ''data'', iv = ''00'',
                       authTag = ''00''\<rparr>],
      nextId = 6\<rparr>"

definition job_five :: google_payload where
  "job_five = \<lparr>j_projectId = 7, j_jobId = 1, urlIds = [1, 2, 3, 4, 5], action = ''URL_UPDATED''\<rparr>"


text \<open>A second job of the same project, for the URLs 3, 4 and 5.\<close>

definition job_last_three :: google_payload where
  "job_last_three = \<lparr>j_projectId = 7, j_jobId = 2, urlIds = [3, 4, 5], action = ''URL_UPDATED''\<rparr>"

section \<open>In-browser indexing service (IndexingService)\<close>

text \<open>
  A value as \<^verbatim>\<open>JSON.parse\<close> yields it, as far as the code below can tell one from
  another: a string; an array, of which only the elements that are strings are kept
  (\<^verbatim>\<open>Array.prototype.includes\<close> compares with a string); and any other value, a number, a
  boolean or an object, which has none of the methods of a string.
\<close>

datatype json_value = JString string | JArray "string list" | JOther

text \<open>
  What \<^verbatim>\<open>fetchWithSmartProxy\<close> hands back: \<^verbatim>\<open>{text, status, ok}\<close>, or an exception other
  than an abort. \<^verbatim>\<open>jsonErrorMessage\<close> is the value of
  \<^verbatim>\<open>JSON.parse(res.text).error?.message\<close> when the body parses and that value is truthy,
  and \<open>None\<close> otherwise. \<^verbatim>\<open>ok\<close> is the \<^verbatim>\<open>Response.ok\<close> of the Fetch API: a status from
  200 to 299.
\<close>

record http_response =
  status :: int
  res_text :: string
  jsonErrorMessage :: "json_value option"

datatype fetch_result = Response http_response | NetworkError

definition ok :: "http_response \<Rightarrow> bool" where
  "ok res \<longleftrightarrow> 200 \<le> status res \<and> status res \<le> 299"


definition toLowerCase :: "string \<Rightarrow> string" where
  "toLowerCase s =
     map (\<lambda>c. if (65::nat) \<le> of_char c \<and> of_char c \<le> (90::nat)
               then char_of (of_char c + (32::nat)) else c) s"


text \<open>
  The messages a failed URL is reported with:
  \<^verbatim>\<open>'QUOTA EXCEEDED: Google says "Quota Exceeded".'\<close>, \<^verbatim>\<open>'Rate Limit (Max Retries)'\<close>,
  \<^verbatim>\<open>'PERMISSION DENIED: Service Account not Owner in GSC.'\<close>,
  \<^verbatim>\<open>`403 Forbidden: ${errorMsg.substring(0, 50)}`\<close>,
  \<^verbatim>\<open>`HTTP ${res.status}: ${errorMsg.substring(0, 30)}`\<close>, \<^verbatim>\<open>'Network Error'\<close> and
  \<^verbatim>\<open>'Max Retries Exceeded'\<close>.
\<close>

datatype failure_msg =
    QuotaExceededMsg
  | RateLimitMaxRetries
  | PermissionDeniedMsg
  | Forbidden403 string
  | HttpStatus int string
  | NetworkErrorMsg
  | MaxRetriesExceeded







text \<open>The result of \<^verbatim>\<open>submitGoogleUrls\<close>: \<^verbatim>\<open>{submitted, errors, errorDetails, abort?}\<close>.\<close>

record google_result =
  submitted :: nat
  errors :: nat
  errorDetails :: "failure_msg list"
  abort :: bool








section \<open>IndexNow submitter worker (indexNowSubmitterWorker)\<close>



text \<open>
  The surroundings of a job: \<^verbatim>\<open>openKey\<close> stands for \<^verbatim>\<open>decryptSimpleCredential\<close> (\<open>None\<close>
  when it throws), and \<^verbatim>\<open>post endpoint n urlList\<close> is what \<^verbatim>\<open>fetch\<close> gives for the attempt
  number \<open>n\<close> (from 0) at that endpoint. The four engines run in parallel in the
  source; an engine's answers depend on its own attempts only, so the model takes the
  engines one after the other.
\<close>

record indexnow_env =
  openKey :: "credential_row \<Rightarrow> string option"
  post :: "string \<Rightarrow> nat \<Rightarrow> string list \<Rightarrow> fetch_result"

text \<open>
  \<^verbatim>\<open>submitToEngine\<close>: \<^verbatim>\<open>pRetry\<close> around one POST of the whole \<^verbatim>\<open>urlList\<close>; a response that is
  not \<^verbatim>\<open>ok\<close> and a failed \<^verbatim>\<open>fetch\<close> are errors alike, retried \<^verbatim>\<open>retries\<close> times at most with
  the same body. It returns \<^verbatim>\<open>success\<close> and the \<^verbatim>\<open>urlList\<close> of every request it has sent,
  the newest last.
\<close>

primrec pRetry_post ::
  "indexnow_env \<Rightarrow> string \<Rightarrow> string list \<Rightarrow> nat \<Rightarrow> string list list \<Rightarrow> bool \<times> string list list" where
  "pRetry_post env endpoint urlList 0 posted =
     (case post env endpoint (length posted) urlList of
        Response res \<Rightarrow> (ok res, posted @ [urlList])
      | NetworkError \<Rightarrow> (False, posted @ [urlList]))"
| "pRetry_post env endpoint urlList (Suc retries) posted =
     (case post env endpoint (length posted) urlList of
        Response res \<Rightarrow>
          if ok res then (True, posted @ [urlList])
          else pRetry_post env endpoint urlList retries (posted @ [urlList])
      | NetworkError \<Rightarrow> pRetry_post env endpoint urlList retries (posted @ [urlList]))"

definition submitToEngine ::
  "indexnow_env \<Rightarrow> string \<Rightarrow> string list \<Rightarrow> bool \<times> string list list" where
  "submitToEngine env endpoint urlList = pRetry_post env endpoint urlList MAX_RETRIES []"


definition markBingSubmitted :: "uuid list \<Rightarrow> timestamp \<Rightarrow> db \<Rightarrow> db" where
  "markBingSubmitted ids now d =
     d\<lparr>urls := map (\<lambda>u. if u_id u \<in> set ids
                        then u\<lparr>bingStatus := Some SUBMITTED, bingSubmittedAt := Some now\<rparr>
                        else u) (urls d)\<rparr>"





section \<open>IndexNow in the indexing service (IndexingService.attemptIndexNowBatch)\<close>

text \<open>
  The repository holds two versions of \<^verbatim>\<open>attemptIndexNowBatch\<close>. Both POST the body
  \<^verbatim>\<open>{host, key, urlList, keyLocation}\<close> to \<^verbatim>\<open>https://api.indexnow.org/indexnow\<close> and return
  \<^verbatim>\<open>{submitted, errors}\<close>, here a pair. \<^verbatim>\<open>fetchIndexNow n urlList\<close> is the answer to the
  request number \<open>n\<close> of the run. The state of a run lists the \<^verbatim>\<open>urlList\<close> of every
  request sent and adds up the milliseconds spent in \<^verbatim>\<open>setTimeout\<close>. The abort signal is
  taken as never raised.
\<close>

record service_state =
  requests :: "string list list"
  waited :: nat

definition sent :: "string list \<Rightarrow> service_state \<Rightarrow> service_state" where
  "sent urlList st = st\<lparr>requests := requests st @ [urlList]\<rparr>"

definition wait :: "nat \<Rightarrow> service_state \<Rightarrow> service_state" where
  "wait ms st = st\<lparr>waited := waited st + ms\<rparr>"

definition accepted :: "http_response \<Rightarrow> bool" where
  "accepted res \<longleftrightarrow> ok res \<or> status res = 200 \<or> status res = 202"

text \<open>
  The version with adaptive batch splitting: on 429 or 422, a batch of more than 10 URLs
  is cut at \<^verbatim>\<open>Math.floor(urls.length / 2)\<close>, and after one second each half is submitted
  in turn.
\<close>

function attemptIndexNowBatch ::
  "(nat \<Rightarrow> string list \<Rightarrow> fetch_result) \<Rightarrow> string list \<Rightarrow> service_state \<Rightarrow>
     (nat \<times> nat) \<times> service_state" where
  "attemptIndexNowBatch fetchIndexNow urlList st =
     (case fetchIndexNow (length (requests st)) urlList of
        NetworkError \<Rightarrow> ((0, length urlList), sent urlList st)
      | Response res \<Rightarrow>
          if accepted res then ((length urlList, 0), sent urlList st)
          else if (status res = 429 \<or> status res = 422) \<and> length urlList > 10 then
            (let mid = length urlList div 2;
                 left = take mid urlList;
                 right = drop mid urlList
             in case attemptIndexNowBatch fetchIndexNow left (wait 1000 (sent urlList st)) of
                  (r1, st1) \<Rightarrow>
                    (case attemptIndexNowBatch fetchIndexNow right st1 of
                       (r2, st2) \<Rightarrow> ((fst r1 + fst r2, snd r1 + snd r2), st2)))
          else ((0, length urlList), sent urlList st))"
  by pat_completeness auto

termination
  by (relation "measure (\<lambda>(f, urlList, st). length urlList)") auto

text \<open>
  The version with retries (\<^verbatim>\<open>let retries = 2; while (retries >= 0)\<close>): a 429, a 5xx and
  a failed fetch are tried again after three seconds while retries are left; any other
  rejection, 422 among them, ends the batch at once. The batch is never cut.
\<close>

primrec attemptIndexNowBatch_retrying ::
  "(nat \<Rightarrow> string list \<Rightarrow> fetch_result) \<Rightarrow> string list \<Rightarrow> nat \<Rightarrow> service_state \<Rightarrow>
     (nat \<times> nat) \<times> service_state" where
  "attemptIndexNowBatch_retrying fetchIndexNow urlList 0 st =
     (case fetchIndexNow (length (requests st)) urlList of
        NetworkError \<Rightarrow> ((0, length urlList), sent urlList st)
      | Response res \<Rightarrow>
          if accepted res then ((length urlList, 0), sent urlList st)
          else ((0, length urlList), sent urlList st))"
| "attemptIndexNowBatch_retrying fetchIndexNow urlList (Suc retries) st =
     (case fetchIndexNow (length (requests st)) urlList of
        NetworkError \<Rightarrow>
          attemptIndexNowBatch_retrying fetchIndexNow urlList retries (wait 3000 (sent urlList st))
      | Response res \<Rightarrow>
          if accepted res then ((length urlList, 0), sent urlList st)
          else if status res \<ge> 500 \<or> status res = 429 then
            attemptIndexNowBatch_retrying fetchIndexNow urlList retries (wait 3000 (sent urlList st))
          else ((0, length urlList), sent urlList st))"

definition submitIndexNowBulk_retrying ::
  "(nat \<Rightarrow> string list \<Rightarrow> fetch_result) \<Rightarrow> string list \<Rightarrow> (nat \<times> nat) \<times> service_state" where
  "submitIndexNowBulk_retrying fetchIndexNow urlList =
     attemptIndexNowBatch_retrying fetchIndexNow urlList 2 \<lparr>requests = [], waited = 0\<rparr>"

definition submitIndexNowBulk ::
  "(nat \<Rightarrow> string list \<Rightarrow> fetch_result) \<Rightarrow> string list \<Rightarrow> (nat \<times> nat) \<times> service_state" where
  "submitIndexNowBulk fetchIndexNow urlList =
     attemptIndexNowBatch fetchIndexNow urlList \<lparr>requests = [], waited = 0\<rparr>"

text \<open>
  A batch of 40 URLs, and an endpoint that answers 422 to a batch of 40 and 200 to any
  other; an endpoint that answers 422 to everything.
\<close>

definition forty_urls :: "string list" where
  "forty_urls = map (\<lambda>n. ''http://t/p'' @ [char_of (48 + n div 10), char_of (48 + n mod 10)]) [0..<40]"

definition respond :: "int \<Rightarrow> fetch_result" where
  "respond code = Response \<lparr>status = code, res_text = [], jsonErrorMessage = None\<rparr>"

definition fetch_rejects_forty :: "nat \<Rightarrow> string list \<Rightarrow> fetch_result" where
  "fetch_rejects_forty n urlList = (if length urlList = 40 then respond 422 else respond 200)"

definition fetch_unprocessable :: "nat \<Rightarrow> string list \<Rightarrow> fetch_result" where
  "fetch_unprocessable n urlList = respond 422"

definition env_unprocessable :: indexnow_env where
  "env_unprocessable = \<lparr>openKey = (\<lambda>c. Some ''key''), post = (\<lambda>endpoint. fetch_unprocessable)\<rparr>"

section \<open>URL store (batchUpsertUrls)\<close>

text \<open>An entry as the parser yields it (\<^verbatim>\<open>ParsedUrl\<close>).\<close>

record parsed_url =
  p_loc :: string
  p_lastmod :: "string option"
  p_changefreq :: "string option"
  p_priority :: "string option"

definition BATCH_SIZE :: nat where "BATCH_SIZE = 500"

text \<open>
  What the insert of a batch can fail with. The client throws \<^verbatim>\<open>RangeError: Invalid time
  value\<close> when it encodes a \<^verbatim>\<open>new Date(url.lastmod)\<close> that is no date, before the
  statement is sent. PostgreSQL refuses a \<^verbatim>\<open>changefreq\<close> that does not fit
  \<^verbatim>\<open>varchar(20)\<close> and a \<^verbatim>\<open>priority\<close> that does not fit \<^verbatim>\<open>decimal(2, 1)\<close>, and it refuses
  an \<^verbatim>\<open>INSERT ... ON CONFLICT DO UPDATE\<close> in which two of the proposed rows have the same
  conflict key ("ON CONFLICT DO UPDATE command cannot affect row a second time"). A
  statement that fails changes nothing.
\<close>

datatype db_error = InvalidTimeValue | ValueTooLong | NumericOverflow | CardinalityViolation

text \<open>
  The three columns whose text may be refused. A parameter \<open>accepts\<close> of the functions
  below says which texts a column takes: for \<open>Lastmod\<close> those that \<^verbatim>\<open>new Date\<close> parses
  to a date, for \<open>Changefreq\<close> those of at most 20 characters, for \<open>Priority\<close> those
  whose \<^verbatim>\<open>parseFloat\<close> the column can hold.
\<close>

datatype checked_column = Lastmod | Changefreq | Priority

text \<open>
  \<^verbatim>\<open>url.lastmod ? new Date(url.lastmod) : null\<close> and
  \<^verbatim>\<open>url.priority ? parseFloat(url.priority) : null\<close>: an absent or empty text gives NULL.
  The rows of the model keep the text from which the date and the number are computed.
\<close>

definition truthy :: "string option \<Rightarrow> string option" where
  "truthy v = (case v of None \<Rightarrow> None | Some s \<Rightarrow> if s = [] then None else Some s)"

text \<open>
  One proposed row of the statement: a row with the key (projectId, locHash) gets the
  four columns of the \<^verbatim>\<open>set\<close> clause; otherwise a row is inserted, with the defaults of
  the schema for the columns the statement does not give (a new id, both statuses
  DISCOVERED, \<^verbatim>\<open>first_seen_at = now()\<close>). \<open>sha256\<close> is
  \<^verbatim>\<open>createHash('sha256').update(loc).digest('hex')\<close>.
\<close>

definition upsertUrl ::
  "(string \<Rightarrow> string) \<Rightarrow> uuid \<Rightarrow> uuid \<Rightarrow> timestamp \<Rightarrow> db \<Rightarrow> parsed_url \<Rightarrow> db" where
  "upsertUrl sha256 pid sid now d url =
     (if list_ex (\<lambda>u. u_projectId u = pid \<and> locHash u = sha256 (p_loc url)) (urls d)
      then d\<lparr>urls :=
               map (\<lambda>u. if u_projectId u = pid \<and> locHash u = sha256 (p_loc url)
                         then u\<lparr>sitemapId := Some sid, lastmod := truthy (p_lastmod url),
                                changefreq := p_changefreq url,
                                priority := truthy (p_priority url)\<rparr>
                         else u) (urls d)\<rparr>
      else d\<lparr>urls := urls d @
               [\<lparr>u_id = nextId d, u_projectId = pid, sitemapId = Some sid,
                 loc = p_loc url, locHash = sha256 (p_loc url),
                 lastmod = truthy (p_lastmod url), changefreq = p_changefreq url,
                 priority = truthy (p_priority url),
                 googleStatus = Some DISCOVERED, googleSubmittedAt = None,
                 bingStatus = Some DISCOVERED, bingSubmittedAt = None,
                 firstSeenAt = now\<rparr>],
             nextId := Suc (nextId d)\<rparr>)"

text \<open>
  What PostgreSQL finds wrong with one proposed row, given the conflict keys of the rows
  proposed before it in the same statement; and the first error over the rows of a
  statement, taken in their order.
\<close>

definition rowError ::
  "(string \<Rightarrow> string) \<Rightarrow> (checked_column \<Rightarrow> string \<Rightarrow> bool) \<Rightarrow> string list \<Rightarrow> parsed_url \<Rightarrow>
     db_error option" where
  "rowError sha256 accepts proposed url =
     (if (case p_changefreq url of None \<Rightarrow> False | Some c \<Rightarrow> \<not> accepts Changefreq c)
      then Some ValueTooLong
      else if (case truthy (p_priority url) of None \<Rightarrow> False | Some p \<Rightarrow> \<not> accepts Priority p)
      then Some NumericOverflow
      else if sha256 (p_loc url) \<in> set proposed then Some CardinalityViolation
      else None)"

fun statementError ::
  "(string \<Rightarrow> string) \<Rightarrow> (checked_column \<Rightarrow> string \<Rightarrow> bool) \<Rightarrow> string list \<Rightarrow> parsed_url list \<Rightarrow>
     db_error option" where
  "statementError sha256 accepts proposed [] = None"
| "statementError sha256 accepts proposed (url # rest) =
     (case rowError sha256 accepts proposed url of
        Some e \<Rightarrow> Some e
      | None \<Rightarrow> statementError sha256 accepts (sha256 (p_loc url) # proposed) rest)"

text \<open>
  \<^verbatim>\<open>db.insert(urls).values(values).onConflictDoUpdate({target: [projectId, locHash], set: ...})\<close>
  for one batch.
\<close>

definition insertUrls ::
  "(string \<Rightarrow> string) \<Rightarrow> (checked_column \<Rightarrow> string \<Rightarrow> bool) \<Rightarrow> uuid \<Rightarrow> uuid \<Rightarrow> timestamp \<Rightarrow>
     parsed_url list \<Rightarrow> db \<Rightarrow> db_error + db" where
  "insertUrls sha256 accepts pid sid now batch d =
     (if list_ex (\<lambda>url. case truthy (p_lastmod url) of
                          None \<Rightarrow> False
                        | Some l \<Rightarrow> \<not> accepts Lastmod l) batch
      then Inl InvalidTimeValue
      else (case statementError sha256 accepts [] batch of
              Some e \<Rightarrow> Inl e
            | None \<Rightarrow> Inr (foldl (upsertUrl sha256 pid sid now) d batch)))"

text \<open>
  The loop \<^verbatim>\<open>for (let i = 0; i < total; i += BATCH_SIZE)\<close> over
  \<^verbatim>\<open>parsedUrls.slice(i, i + BATCH_SIZE)\<close>, from the entries not yet written. An error of
  the insert ends the loop (the handler then fails the job); the batches written before
  stay. The function returns the error if any, the database, and for every progress
  report the two numbers \<^verbatim>\<open>processed\<close> and \<^verbatim>\<open>total\<close> from which the job computes it, as
  \<^verbatim>\<open>Math.round((processed / total) * 100)\<close> in floating point.
\<close>

function upsertFrom ::
  "(string \<Rightarrow> string) \<Rightarrow> (checked_column \<Rightarrow> string \<Rightarrow> bool) \<Rightarrow> uuid \<Rightarrow> uuid \<Rightarrow> timestamp \<Rightarrow>
     nat \<Rightarrow> nat \<Rightarrow> parsed_url list \<Rightarrow> db \<Rightarrow> (nat \<times> nat) list \<Rightarrow>
     db_error option \<times> db \<times> (nat \<times> nat) list" where
  "upsertFrom sha256 accepts pid sid now tot processed remaining d reported =
     (if remaining = [] then (None, d, reported)
      else
        let batch = take BATCH_SIZE remaining in
        case insertUrls sha256 accepts pid sid now batch d of
          Inl e \<Rightarrow> (Some e, d, reported)
        | Inr d' \<Rightarrow>
            upsertFrom sha256 accepts pid sid now tot (processed + length batch)
              (drop BATCH_SIZE remaining) d'
              (reported @ [(processed + length batch, tot)]))"
  by pat_completeness auto

termination
  by (relation "measure (\<lambda>(sha256, accepts, pid, sid, now, tot, processed, remaining, d, reported).
                  length remaining)")
     (auto simp: BATCH_SIZE_def)

definition batchUpsertUrls ::
  "(string \<Rightarrow> string) \<Rightarrow> (checked_column \<Rightarrow> string \<Rightarrow> bool) \<Rightarrow> uuid \<Rightarrow> uuid \<Rightarrow>
     parsed_url list \<Rightarrow> timestamp \<Rightarrow> db \<Rightarrow> db_error option \<times> db \<times> (nat \<times> nat) list" where
  "batchUpsertUrls sha256 accepts projectId sid parsedUrls now d =
     upsertFrom sha256 accepts projectId sid now (length parsedUrls) 0 parsedUrls d []"

text \<open>
  The conflict key of a URL row, and the columns that the \<^verbatim>\<open>set\<close> clause of the upsert
  does not name.
\<close>

definition url_key :: "url_row \<Rightarrow> uuid \<times> string" where
  "url_key u = (u_projectId u, locHash u)"

definition kept_columns ::
  "url_row \<Rightarrow> uuid \<times> uuid \<times> string \<times> string \<times> indexing_status option \<times> timestamp option \<times>
     indexing_status option \<times> timestamp option \<times> timestamp" where
  "kept_columns u =
     (u_id u, u_projectId u, loc u, locHash u, googleStatus u, googleSubmittedAt u,
      bingStatus u, bingSubmittedAt u, firstSeenAt u)"

text \<open>
  A sitemap that lists the same page twice, a sitemap without repetition, and an empty
  store. \<open>toy_hash\<close> stands in for SHA-256 where a concrete run is evaluated, and
  \<open>accepts_all\<close> for columns that take every text given.
\<close>

definition toy_hash :: "string \<Rightarrow> string" where
  "toy_hash s = ''#'' @ s"

definition accepts_all :: "checked_column \<Rightarrow> string \<Rightarrow> bool" where
  "accepts_all column s = True"

definition entry :: "string \<Rightarrow> parsed_url" where
  "entry l = \<lparr>p_loc = l, p_lastmod = None, p_changefreq = None, p_priority = None\<rparr>"

definition db_empty :: db where
  "db_empty =
     \<lparr>urls = [], projects = [project_fresh 7], quotaUsage = [], submissions = [],
      credentials = [], nextId = 1\<rparr>"

section \<open>Sitemap parser of the worker (fetchAndParseSitemap)\<close>

text \<open>
  \<^verbatim>\<open>String.prototype.trim\<close>. A string of the model holds the bytes of a text in UTF-8, so
  the white space and the line terminators of the language are the byte sequences of
  U+0009 to U+000D, U+0020, U+00A0, U+1680, U+2000 to U+200A, U+2028, U+2029, U+202F,
  U+205F, U+3000 and U+FEFF.
\<close>

definition white_space :: "string list" where
  "white_space =
     [[CHR 0x09], [CHR 0x0A], [CHR 0x0B], [CHR 0x0C], [CHR 0x0D], [CHR 0x20],
      [CHR 0xC2, CHR 0xA0], [CHR 0xE1, CHR 0x9A, CHR 0x80],
      [CHR 0xE2, CHR 0x80, CHR 0x80], [CHR 0xE2, CHR 0x80, CHR 0x81],
      [CHR 0xE2, CHR 0x80, CHR 0x82], [CHR 0xE2, CHR 0x80, CHR 0x83],
      [CHR 0xE2, CHR 0x80, CHR 0x84], [CHR 0xE2, CHR 0x80, CHR 0x85],
      [CHR 0xE2, CHR 0x80, CHR 0x86], [CHR 0xE2, CHR 0x80, CHR 0x87],
      [CHR 0xE2, CHR 0x80, CHR 0x88], [CHR 0xE2, CHR 0x80, CHR 0x89],
      [CHR 0xE2, CHR 0x80, CHR 0x8A], [CHR 0xE2, CHR 0x80, CHR 0xA8],
      [CHR 0xE2, CHR 0x80, CHR 0xA9], [CHR 0xE2, CHR 0x80, CHR 0xAF],
      [CHR 0xE2, CHR 0x81, CHR 0x9F], [CHR 0xE3, CHR 0x80, CHR 0x80],
      [CHR 0xEF, CHR 0xBB, CHR 0xBF]]"

text \<open>\<open>strip ws s\<close> takes from the front of \<open>s\<close> every sequence of \<open>ws\<close> it begins with.\<close>

function strip :: "string list \<Rightarrow> string \<Rightarrow> string" where
  "strip ws s =
     (case find (\<lambda>w. w \<noteq> [] \<and> take (length w) s = w) ws of
        None \<Rightarrow> s
      | Some w \<Rightarrow> strip ws (drop (length w) s))"
  by pat_completeness auto

termination
proof (relation "measure (\<lambda>(ws, s). length s)")
  show "wf (measure (\<lambda>(ws, s). length s))" by simp
next
  fix ws :: "string list" and s w :: string
  assume "find (\<lambda>w. w \<noteq> [] \<and> take (length w) s = w) ws = Some w"
  then have "w \<noteq> []" and "take (length w) s = w"
    by (auto simp: find_Some_iff)
  then have "s \<noteq> []" and "0 < length w" by auto
  then show "((ws, drop (length w) s), (ws, s)) \<in> measure (\<lambda>(ws, s). length s)"
    by (cases s) simp_all
qed

definition trim :: "string \<Rightarrow> string" where
  "trim s = rev (strip (map rev white_space) (rev (strip white_space s)))"

text \<open>
  The events that the streaming parser (\<^verbatim>\<open>sax.createStream(true, {trim: true})\<close>) emits
  for a document, in order; the handlers of the source are functions on the state the
  closure keeps. An \<^verbatim>\<open>error\<close> event rejects the promise.
\<close>

datatype sax_event = OpenTag string | TextEvent string | CloseTag string | ErrorEvent

datatype sitemap_type = INDEX | URLSET

record parser_state =
  ps_urls :: "parsed_url list"
  childSitemaps :: "string list"
  currentLoc :: "string option"
  currentLastmod :: "string option"
  currentChangefreq :: "string option"
  currentPriority :: "string option"
  currentTag :: string
  isIndex :: bool
  rejected :: bool

definition parser_start :: parser_state where
  "parser_start =
     \<lparr>ps_urls = [], childSitemaps = [], currentLoc = None, currentLastmod = None,
      currentChangefreq = None, currentPriority = None, currentTag = [], isIndex = False,
      rejected = False\<rparr>"

fun on_event :: "parser_state \<Rightarrow> sax_event \<Rightarrow> parser_state" where
  "on_event s (OpenTag name) =
     (let tag = toLowerCase name
      in s\<lparr>currentTag := tag, isIndex := (isIndex s \<or> tag = ''sitemapindex'')\<rparr>)"
| "on_event s (TextEvent t) =
     (let trimmed = trim t in
      if trimmed = [] then s
      else if currentTag s = ''loc'' then
        (if isIndex s then s\<lparr>childSitemaps := childSitemaps s @ [trimmed]\<rparr>
         else s\<lparr>currentLoc := Some trimmed\<rparr>)
      else if currentTag s = ''lastmod'' then s\<lparr>currentLastmod := Some trimmed\<rparr>
      else if currentTag s = ''changefreq'' then s\<lparr>currentChangefreq := Some trimmed\<rparr>
      else if currentTag s = ''priority'' then s\<lparr>currentPriority := Some trimmed\<rparr>
      else s)"
| "on_event s (CloseTag name) =
     (case currentLoc s of
        Some l \<Rightarrow>
          if toLowerCase name = ''url''
          then s\<lparr>ps_urls := ps_urls s @
                    [\<lparr>p_loc = l, p_lastmod = currentLastmod s,
                      p_changefreq = currentChangefreq s, p_priority = currentPriority s\<rparr>],
                 currentLoc := None, currentLastmod := None, currentChangefreq := None,
                 currentPriority := None, currentTag := []\<rparr>
          else s\<lparr>currentTag := []\<rparr>
      | None \<Rightarrow> s\<lparr>currentTag := []\<rparr>)"
| "on_event s ErrorEvent = s\<lparr>rejected := True\<rparr>"

text \<open>
  The result of \<^verbatim>\<open>fetchAndParseSitemap\<close> once the body has been read: \<^verbatim>\<open>None\<close> when the
  promise was rejected, otherwise \<^verbatim>\<open>{type, urls, childSitemaps}\<close> with
  \<^verbatim>\<open>type: isIndex ? 'INDEX' : 'URLSET'\<close>.
\<close>

definition parseSitemap ::
  "sax_event list \<Rightarrow> (sitemap_type \<times> parsed_url list \<times> string list) option" where
  "parseSitemap events =
     (let s = foldl on_event parser_start events
      in if rejected s then None
         else Some (if isIndex s then INDEX else URLSET, ps_urls s, childSitemaps s))"

section \<open>Sitemap discovery in the browser (SitemapStreamer)\<close>

text \<open>
  The document that \<^verbatim>\<open>DOMParser.parseFromString(xmlText, "text/xml")\<close> gives: elements
  with a name, attributes and children, and text nodes. The name kept is the local name
  of the element, the part after the prefix if it has one: this is what a type selector
  of \<^verbatim>\<open>querySelector\<close> is compared with, in whatever namespace the element is.
\<close>

datatype xml = Element string "(string \<times> string) list" "xml list" | TextNode string

fun tagName :: "xml \<Rightarrow> string" where
  "tagName (Element name attrs cs) = name"
| "tagName (TextNode t) = []"

fun childNodes :: "xml \<Rightarrow> xml list" where
  "childNodes (Element name attrs cs) = cs"
| "childNodes (TextNode t) = []"

fun getAttribute :: "string \<Rightarrow> xml \<Rightarrow> string option" where
  "getAttribute a (Element name attrs cs) = map_of attrs a"
| "getAttribute a (TextNode t) = None"

fun textContent :: "xml \<Rightarrow> string" where
  "textContent (TextNode t) = t"
| "textContent (Element name attrs cs) = concat (map textContent cs)"

text \<open>
  The elements of a tree in document order, each with the local name of its parent
  element (\<open>None\<close> for the root).
\<close>

fun elements :: "string option \<Rightarrow> xml \<Rightarrow> (string option \<times> xml) list" where
  "elements parent (TextNode t) = []"
| "elements parent (Element name attrs cs) =
     (parent, Element name attrs cs) # concat (map (elements (Some name)) cs)"

text \<open>
  \<^verbatim>\<open>xmlDoc.querySelector(name)\<close>, \<^verbatim>\<open>node.querySelector(name)\<close> (among the descendants of
  the node), \<^verbatim>\<open>querySelectorAll(name)\<close> and \<^verbatim>\<open>querySelectorAll("p1 > name, p2 > name")\<close>.
\<close>

definition querySelector :: "string \<Rightarrow> xml \<Rightarrow> xml option" where
  "querySelector name doc = find (\<lambda>e. tagName e = name) (map snd (elements None doc))"

definition querySelectorWithin :: "string \<Rightarrow> xml \<Rightarrow> xml option" where
  "querySelectorWithin name node =
     find (\<lambda>e. tagName e = name)
          (map snd (concat (map (elements (Some (tagName node))) (childNodes node))))"

definition querySelectorAll :: "string \<Rightarrow> xml \<Rightarrow> xml list" where
  "querySelectorAll name doc = filter (\<lambda>e. tagName e = name) (map snd (elements None doc))"

definition querySelectorAllChildOf :: "string list \<Rightarrow> string \<Rightarrow> xml \<Rightarrow> xml list" where
  "querySelectorAllChildOf parents name doc =
     map snd (filter (\<lambda>(p, e). tagName e = name \<and> (case p of None \<Rightarrow> False | Some n \<Rightarrow> n \<in> set parents))
                     (elements None doc))"

text \<open>An entry as the streamer yields it (\<^verbatim>\<open>SitemapUrl\<close>): \<^verbatim>\<open>{loc, lastmod?}\<close>.\<close>

type_synonym sitemap_url = "string \<times> string option"

text \<open>
  The three branches of \<^verbatim>\<open>fetchSitemapRecursive\<close> on a parsed document: the child
  sitemaps of an index (\<^verbatim>\<open>sitemap > loc\<close>, trimmed, the empty ones skipped), the entries
  of a urlset, the links of a feed
  (\<^verbatim>\<open>node.textContent?.trim() || node.getAttribute('href')\<close>).
\<close>

definition indexChildren :: "xml \<Rightarrow> string list" where
  "indexChildren doc =
     filter (\<lambda>childUrl. childUrl \<noteq> [])
            (map (\<lambda>node. trim (textContent node)) (querySelectorAllChildOf [''sitemap''] ''loc'' doc))"

definition urlsetEntries :: "xml \<Rightarrow> sitemap_url list" where
  "urlsetEntries doc =
     concat (map (\<lambda>node.
        case map_option (\<lambda>n. trim (textContent n)) (querySelectorWithin ''loc'' node) of
          None \<Rightarrow> []
        | Some l \<Rightarrow>
            if l = [] then []
            else [(l, map_option (\<lambda>n. trim (textContent n)) (querySelectorWithin ''lastmod'' node))])
        (querySelectorAll ''url'' doc))"

definition feedLinks :: "xml \<Rightarrow> sitemap_url list" where
  "feedLinks doc =
     concat (map (\<lambda>node.
        if trim (textContent node) \<noteq> [] then [(trim (textContent node), None)]
        else (case getAttribute ''href'' node of
                None \<Rightarrow> []
              | Some h \<Rightarrow> if h = [] then [] else [(h, None)]))
        (querySelectorAllChildOf [''item'', ''entry''] ''link'' doc))"

datatype discovery = SitemapIndex "string list" | Urls "sitemap_url list"

definition discover :: "xml \<Rightarrow> discovery" where
  "discover doc =
     (if querySelector ''sitemapindex'' doc \<noteq> None then SitemapIndex (indexChildren doc)
      else if querySelector ''urlset'' doc \<noteq> None then Urls (urlsetEntries doc)
      else if querySelector ''rss'' doc \<noteq> None \<or> querySelector ''feed'' doc \<noteq> None
      then Urls (feedLinks doc)
      else Urls [])"

text \<open>
  An RSS feed and an Atom feed, as documents and as the events of the streaming parser.
\<close>

definition rss_doc :: xml where
  "rss_doc =
     Element ''rss'' [(''version'', ''2.0'')]
       [Element ''channel'' []
          [Element ''title'' [] [TextNode ''News''],
           Element ''item'' [] [Element ''link'' [] [TextNode '' http://t/a '']],
           Element ''item'' [] [Element ''link'' [] [TextNode ''http://t/b'']]]]"

definition atom_doc :: xml where
  "atom_doc =
     Element ''feed'' []
       [Element ''entry'' [] [Element ''link'' [(''href'', ''http://t/c'')] []]]"

definition rss_events :: "sax_event list" where
  "rss_events =
     [OpenTag ''rss'', OpenTag ''channel'',
      OpenTag ''title'', TextEvent ''News'', CloseTag ''title'',
      OpenTag ''item'', OpenTag ''link'', TextEvent ''http://t/a'', CloseTag ''link'', CloseTag ''item'',
      OpenTag ''item'', OpenTag ''link'', TextEvent ''http://t/b'', CloseTag ''link'', CloseTag ''item'',
      CloseTag ''channel'', CloseTag ''rss'']"

section \<open>Recursive discovery (SitemapStreamer.streamParse, sitemapScannerWorker)\<close>

text \<open>
  What \<^verbatim>\<open>fetchWithSmartProxy\<close> and the DOM parser give for a URL: nothing usable (the
  fetch throws or is not \<^verbatim>\<open>ok\<close>), or the parsed document together with whether the text
  was blank. A web site is a finite table of such pages; a URL outside the table cannot
  be fetched.
\<close>

datatype page = Unreachable | Page bool xml

type_synonym site = "(string \<times> page) list"

text \<open>
  What one call of \<^verbatim>\<open>fetchSitemapRecursive\<close> finds at a URL it has not visited:
  \<open>None\<close> when the \<^verbatim>\<open>try\<close> block throws (no content, or a parser error on blank text).
\<close>

definition visit :: "site \<Rightarrow> string \<Rightarrow> discovery option" where
  "visit site url =
     (case map_of site url of
        None \<Rightarrow> None
      | Some Unreachable \<Rightarrow> None
      | Some (Page blank doc) \<Rightarrow>
          if querySelector ''parsererror'' doc \<noteq> None \<and> blank then None
          else Some (discover doc))"

text \<open>
  \<^verbatim>\<open>fetchSitemapRecursive\<close>, with the pending calls of the recursion kept as a list: the
  first URL of \<open>pending\<close> is the call in progress, and the children of an index are
  visited, in order, before the URLs that were pending. \<open>visited\<close> is \<^verbatim>\<open>visitedSitemaps\<close>
  in insertion order; a URL is fetched when, and only when, it is added to it.
  A failure is logged and skipped, except for the first URL of the run
  (\<^verbatim>\<open>visitedSitemaps.size === 1\<close>), whose failure is rethrown: the result is then \<open>None\<close>.
\<close>

function fetchSitemapRecursive ::
  "site \<Rightarrow> string list \<Rightarrow> string list \<Rightarrow> sitemap_url list \<Rightarrow> sitemap_url list option \<times> string list" where
  "fetchSitemapRecursive site [] visited allUrls = (Some allUrls, visited)"
| "fetchSitemapRecursive site (url # pending) visited allUrls =
     (if url \<in> set visited then fetchSitemapRecursive site pending visited allUrls
      else
        case visit site url of
          Some (SitemapIndex children) \<Rightarrow>
            fetchSitemapRecursive site (children @ pending) (visited @ [url]) allUrls
        | Some (Urls found) \<Rightarrow>
            fetchSitemapRecursive site pending (visited @ [url]) (allUrls @ found)
        | None \<Rightarrow>
            if visited = [] then (None, visited @ [url])
            else fetchSitemapRecursive site pending (visited @ [url]) allUrls)"
  by pat_completeness auto

termination
proof -
  have dec: "card (fst ` set site - insert url (set visited)) < card (fst ` set site - set visited)"
    if "url \<notin> set visited" and "visit site url = Some d"
    for site :: site and url visited d
  proof -
    from that(2) have "url \<in> fst ` set site"
      by (auto simp: visit_def split: option.splits dest!: map_of_SomeD intro: rev_image_eqI)
    with that(1) have "fst ` set site - insert url (set visited) \<subset> fst ` set site - set visited"
      by auto
    then show ?thesis by (intro psubset_card_mono) simp_all
  qed
  have le: "card (fst ` set site - insert url (set visited)) \<le> card (fst ` set site - set visited)"
    for site :: site and url visited
    by (intro card_mono) auto
  show ?thesis
    by (relation "measures [\<lambda>(site, pending, visited, allUrls). card (fst ` set site - set visited),
                            \<lambda>(site, pending, visited, allUrls). length pending]")
       (auto simp: dec intro: le_neq_implies_less le)
qed

text \<open>\<^verbatim>\<open>streamParse\<close>: \<^verbatim>\<open>visitedSitemaps.clear()\<close>, then the recursion from the root URL
  (taken to be well formed).\<close>

definition streamParse :: "site \<Rightarrow> string \<Rightarrow> sitemap_url list option \<times> string list" where
  "streamParse site url = fetchSitemapRecursive site [url] [] []"

text \<open>
  The same recursion over a web that need not be a finite table: \<open>web url\<close> is what a
  call finds at a URL. The recursion may then go on for ever, so the function is
  partial: it is \<open>None\<close> where the call does not return.
\<close>

partial_function (option) fetchSitemapRecursive_web ::
  "(string \<Rightarrow> discovery option) \<Rightarrow> string list \<Rightarrow> string list \<Rightarrow> sitemap_url list \<Rightarrow>
     (sitemap_url list option \<times> string list) option" where
  "fetchSitemapRecursive_web web pending visited allUrls =
     (case pending of
        [] \<Rightarrow> Some (Some allUrls, visited)
      | url # rest \<Rightarrow>
          if url \<in> set visited then fetchSitemapRecursive_web web rest visited allUrls
          else
            (case web url of
               Some (SitemapIndex children) \<Rightarrow>
                 fetchSitemapRecursive_web web (children @ rest) (visited @ [url]) allUrls
             | Some (Urls found) \<Rightarrow>
                 fetchSitemapRecursive_web web rest (visited @ [url]) (allUrls @ found)
             | None \<Rightarrow>
                 if visited = [] then Some (None, visited @ [url])
                 else fetchSitemapRecursive_web web rest (visited @ [url]) allUrls))"

definition streamParse_web ::
  "(string \<Rightarrow> discovery option) \<Rightarrow> string \<Rightarrow> (sitemap_url list option \<times> string list) option" where
  "streamParse_web web url = fetchSitemapRecursive_web web [url] [] []"

definition MAX_RECURSION_DEPTH :: nat where "MAX_RECURSION_DEPTH = 10"

text \<open>
  What a scan job of \<^verbatim>\<open>sitemapScannerWorker\<close> asks of the queue once it has parsed its
  sitemap: if child sitemaps were found and \<^verbatim>\<open>depth < MAX_RECURSION_DEPTH\<close>, one call of
  \<^verbatim>\<open>job.queue?.add('sitemap-scanner', {sitemapUrl: childUrl, depth: depth + 1, ...})\<close> for
  every child listed. The function gives the \<^verbatim>\<open>sitemapUrl\<close> and the \<^verbatim>\<open>depth\<close> of these calls,
  in the order of the list. What the queue makes of a call is not part of this model.
\<close>

definition childJobsRequested :: "string list \<Rightarrow> nat \<Rightarrow> (string \<times> nat) list" where
  "childJobsRequested children depth =
     (if length children > 0 \<and> depth < MAX_RECURSION_DEPTH
      then map (\<lambda>childUrl. (childUrl, depth + 1)) children
      else [])"

text \<open>Two sitemap indexes that reference each other (sm1 lists sm2, sm2 lists sm1).\<close>

definition index_doc :: "string \<Rightarrow> xml" where
  "index_doc child =
     Element ''sitemapindex'' [] [Element ''sitemap'' [] [Element ''loc'' [] [TextNode child]]]"

definition cyclic_site :: site where
  "cyclic_site =
     [(''http://t/sm1.xml'', Page False (index_doc ''http://t/sm2.xml'')),
      (''http://t/sm2.xml'', Page False (index_doc ''http://t/sm1.xml''))]"

text \<open>
  A server that answers every URL with a sitemap index listing one more URL, the
  requested one with \<^verbatim>\<open>/a\<close> added: an endless chain.
\<close>

definition web_endless :: "string \<Rightarrow> discovery option" where
  "web_endless url = Some (SitemapIndex [url @ ''/a''])"

text \<open>
  A chain of twelve sitemaps: each of the first eleven is an index that lists the next,
  and the last, eleven levels below the first, is a urlset with one page.
\<close>

definition chain_names :: "string list" where
  "chain_names = map (\<lambda>k. ''http://t/sm'' @ [char_of (97 + k)] @ ''.xml'') [0..<12]"

definition urlset_doc :: "string \<Rightarrow> xml" where
  "urlset_doc l = Element ''urlset'' [] [Element ''url'' [] [Element ''loc'' [] [TextNode l]]]"

definition chain_site :: site where
  "chain_site =
     map (\<lambda>k. (chain_names ! k, Page False (index_doc (chain_names ! Suc k)))) [0..<11] @
     [(chain_names ! 11, Page False (urlset_doc ''http://t/page''))]"

section \<open>Live event bus (broadcastToProject, subscribeToRedis)\<close>

text \<open>
  A server instance: the sockets it holds, by number, each with its \<^verbatim>\<open>readyState\<close> and
  the frames sent to it so far, and the \<^verbatim>\<open>connections\<close> map from
  \<^verbatim>\<open>`${organizationId}:${projectId}`\<close> to the set of sockets of that project, kept as the
  list of their numbers in insertion order (a set: no number twice).
\<close>

datatype ready_state = CONNECTING | OPEN | CLOSING | CLOSED

record socket =
  readyState :: ready_state
  frames :: "string list"

record server =
  sockets :: "nat \<Rightarrow> socket"
  connections :: "string \<Rightarrow> nat list option"

record ws_message =
  m_type :: string
  payload :: string

text \<open>\<^verbatim>\<open>ws.send(data)\<close>\<close>

definition send :: "string \<Rightarrow> server \<Rightarrow> nat \<Rightarrow> server" where
  "send dat inst ws =
     inst\<lparr>sockets := (sockets inst)(ws := (sockets inst ws)\<lparr>frames := frames (sockets inst ws) @ [dat]\<rparr>)\<rparr>"

text \<open>
  \<^verbatim>\<open>projectConnections.forEach((ws) => { if (ws.readyState === WebSocket.OPEN) ws.send(s) })\<close>
\<close>

definition sendToOpen :: "string \<Rightarrow> nat list \<Rightarrow> server \<Rightarrow> server" where
  "sendToOpen dat projectConnections inst =
     foldl (\<lambda>i ws. if readyState (sockets i ws) = OPEN then send dat i ws else i)
           inst projectConnections"

text \<open>
  \<^verbatim>\<open>broadcastToProject\<close>: it returns the instance and what it has published to the broker,
  as (channel, message) pairs. With no socket for the key it returns before publishing.
  \<open>stringify\<close> is \<^verbatim>\<open>JSON.stringify\<close>.
\<close>

definition broadcastToProject ::
  "(ws_message \<Rightarrow> string) \<Rightarrow> string \<Rightarrow> string \<Rightarrow> ws_message \<Rightarrow> server \<Rightarrow>
     server \<times> (string \<times> string) list" where
  "broadcastToProject stringify organizationId pid message inst =
     (let key = organizationId @ '':'' @ pid in
      case connections inst key of
        None \<Rightarrow> (inst, [])
      | Some projectConnections \<Rightarrow>
          if length projectConnections = 0 then (inst, [])
          else
            let messageStr = stringify message
            in (sendToOpen messageStr projectConnections inst, [(''ws:'' @ key, messageStr)]))"

text \<open>
  \<^verbatim>\<open>String.prototype.replace(pattern, replacement)\<close> with a string pattern: the first
  occurrence is replaced.
\<close>

fun replace :: "string \<Rightarrow> string \<Rightarrow> string \<Rightarrow> string" where
  "replace pat rep [] = (if pat = [] then rep else [])"
| "replace pat rep (c # cs) =
     (if take (length pat) (c # cs) = pat then rep @ drop (length pat) (c # cs)
      else c # replace pat rep cs)"

text \<open>
  The callback of \<^verbatim>\<open>subscriber.pSubscribe('ws:*', (message, channel) => ...)\<close>, run for a
  message that the broker delivers to this instance; and the pattern \<^verbatim>\<open>ws:*\<close>.
\<close>

definition onRedisMessage :: "server \<Rightarrow> string \<times> string \<Rightarrow> server" where
  "onRedisMessage inst m =
     (case m of (channel, message) \<Rightarrow>
        let key = replace ''ws:'' [] channel in
        case connections inst key of
          None \<Rightarrow> inst
        | Some projectConnections \<Rightarrow> sendToOpen message projectConnections inst)"

definition matches_ws_pattern :: "string \<Rightarrow> bool" where
  "matches_ws_pattern channel \<longleftrightarrow> take 3 channel = ''ws:''"

text \<open>
  A broker that hands every published message to every subscribed instance, the
  publisher's own included: the instance receives what it has just published.
\<close>

definition broadcastAndReceive ::
  "(ws_message \<Rightarrow> string) \<Rightarrow> string \<Rightarrow> string \<Rightarrow> ws_message \<Rightarrow> server \<Rightarrow> server" where
  "broadcastAndReceive stringify organizationId pid message inst =
     (case broadcastToProject stringify organizationId pid message inst of
        (inst', published) \<Rightarrow>
          foldl onRedisMessage inst' (filter (\<lambda>(channel, m). matches_ws_pattern channel) published))"

text \<open>An instance with an open and a closed socket on the project \<^verbatim>\<open>org1:p1\<close>.\<close>

definition two_sockets :: server where
  "two_sockets =
     \<lparr>sockets = (\<lambda>n. \<lparr>readyState = (if n = 1 then OPEN else CLOSED), frames = []\<rparr>),
      connections = (\<lambda>k. if k = ''org1:p1'' then Some [1, 2] else None)\<rparr>"

definition show_message :: "ws_message \<Rightarrow> string" where
  "show_message m = ''{\"type\":\"'' @ m_type m @ ''\",\"payload\":'' @ payload m @ ''}''"

definition log_message :: ws_message where
  "log_message = \<lparr>m_type = ''LOG'', payload = ''{\"id\":\"1\"}''\<rparr>"

chapter \<open>Properties\<close>

section \<open>Properties of the cached counters\<close>

lemma google_status_in_iff:
  "google_status_in vs u \<longleftrightarrow> (\<exists>s \<in> set vs. googleStatus u = Some s)"
  by (auto simp: google_status_in_def split: option.splits)

lemma selectStats_counts:
  "selectStats rows projectId =
     (length (filter (\<lambda>u. u_projectId u = projectId) rows),
      length (filter (\<lambda>u. u_projectId u = projectId \<and> googleStatus u = Some INDEXED) rows),
      length (filter (\<lambda>u. u_projectId u = projectId \<and>
                (googleStatus u = Some DISCOVERED \<or> googleStatus u = Some QUEUED)) rows),
      length (filter (\<lambda>u. u_projectId u = projectId \<and>
                (googleStatus u = Some ERROR_4XX \<or> googleStatus u = Some ERROR_5XX \<or>
                 googleStatus u = Some CRAWL_ERROR)) rows))"
  by (simp add: selectStats_def Let_def google_status_in_iff conj_commute)

lemma updateProjectStats_urls: "urls (updateProjectStats d projectId now) = urls d"
  by (simp add: updateProjectStats_def split: prod.splits)

lemma updateProjectStats_ids:
  "map p_id (projects (updateProjectStats d projectId now)) = map p_id (projects d)"
  by (simp add: updateProjectStats_def split: prod.splits)

lemma updateProjectStats_projects:
  "projects (updateProjectStats d projectId now) =
     map (\<lambda>p. if p_id p = projectId
               then p\<lparr>totalUrls := fst (selectStats (urls d) projectId),
                      indexedUrls := fst (snd (selectStats (urls d) projectId)),
                      pendingUrls := fst (snd (snd (selectStats (urls d) projectId))),
                      errorUrls := snd (snd (snd (selectStats (urls d) projectId))),
                      lastScanAt := Some now, updatedAt := now\<rparr>
               else p) (projects d)"
  by (simp add: updateProjectStats_def split: prod.splits)

lemma updateProjectStats_row:
  assumes "p \<in> set (projects (updateProjectStats d projectId now))" and "p_id p = projectId"
  shows "(totalUrls p, indexedUrls p, pendingUrls p, errorUrls p) = selectStats (urls d) projectId
         \<and> lastScanAt p = Some now"
proof -
  from assms(1) obtain q where q: "q \<in> set (projects d)"
    and p: "p = (if p_id q = projectId
               then q\<lparr>totalUrls := fst (selectStats (urls d) projectId),
                      indexedUrls := fst (snd (selectStats (urls d) projectId)),
                      pendingUrls := fst (snd (snd (selectStats (urls d) projectId))),
                      errorUrls := snd (snd (snd (selectStats (urls d) projectId))),
                      lastScanAt := Some now, updatedAt := now\<rparr>
               else q)"
    unfolding updateProjectStats_projects by auto
  show ?thesis
  proof (cases "p_id q = projectId")
    case True
    with p show ?thesis by simp
  next
    case False
    with p assms(2) show ?thesis by simp
  qed
qed


lemma updateProjectStats_other:
  assumes "p \<in> set (projects (updateProjectStats d projectId now))" and "p_id p \<noteq> projectId"
  shows "p \<in> set (projects d)"
  using assms unfolding updateProjectStats_projects by (auto split: if_splits)

text \<open>
  C7 (as the code has it). After \<^verbatim>\<open>updateProjectStats\<close> the cached counters of the
  project are: total = the number of its URL rows, indexed = those with googleStatus
  INDEXED, pending = those with googleStatus DISCOVERED or QUEUED (SUBMITTED is not
  counted as pending), error = those with googleStatus ERROR_4XX, ERROR_5XX or
  CRAWL_ERROR; the URL rows themselves and the other projects are left alone.
\<close>

theorem updateProjectStats_counters:
  "urls (updateProjectStats d projectId now) = urls d \<and>
   map p_id (projects (updateProjectStats d projectId now)) = map p_id (projects d) \<and>
   (\<forall>p \<in> set (projects (updateProjectStats d projectId now)).
      if p_id p = projectId then
        totalUrls p = length (filter (\<lambda>u. u_projectId u = projectId) (urls d)) \<and>
        indexedUrls p =
          length (filter (\<lambda>u. u_projectId u = projectId \<and> googleStatus u = Some INDEXED) (urls d)) \<and>
        pendingUrls p =
          length (filter (\<lambda>u. u_projectId u = projectId \<and>
                     (googleStatus u = Some DISCOVERED \<or> googleStatus u = Some QUEUED)) (urls d)) \<and>
        errorUrls p =
          length (filter (\<lambda>u. u_projectId u = projectId \<and>
                     (googleStatus u = Some ERROR_4XX \<or> googleStatus u = Some ERROR_5XX \<or>
                      googleStatus u = Some CRAWL_ERROR)) (urls d)) \<and>
        lastScanAt p = Some now
      else p \<in> set (projects d))"
proof (intro conjI ballI)
  show "urls (updateProjectStats d projectId now) = urls d"
    by (rule updateProjectStats_urls)
  show "map p_id (projects (updateProjectStats d projectId now)) = map p_id (projects d)"
    by (rule updateProjectStats_ids)
next
  fix p assume p: "p \<in> set (projects (updateProjectStats d projectId now))"
  show "if p_id p = projectId then
        totalUrls p = length (filter (\<lambda>u. u_projectId u = projectId) (urls d)) \<and>
        indexedUrls p =
          length (filter (\<lambda>u. u_projectId u = projectId \<and> googleStatus u = Some INDEXED) (urls d)) \<and>
        pendingUrls p =
          length (filter (\<lambda>u. u_projectId u = projectId \<and>
                     (googleStatus u = Some DISCOVERED \<or> googleStatus u = Some QUEUED)) (urls d)) \<and>
        errorUrls p =
          length (filter (\<lambda>u. u_projectId u = projectId \<and>
                     (googleStatus u = Some ERROR_4XX \<or> googleStatus u = Some ERROR_5XX \<or>
                      googleStatus u = Some CRAWL_ERROR)) (urls d)) \<and>
        lastScanAt p = Some now
      else p \<in> set (projects d)"
  proof (cases "p_id p = projectId")
    case True
    from updateProjectStats_row[OF p True]
    show ?thesis unfolding selectStats_counts using True by simp
  next
    case False
    with updateProjectStats_other[OF p] show ?thesis by simp
  qed
qed

theorem updateProjectStats_counters_witness:
  "map (\<lambda>p. (totalUrls p, indexedUrls p, pendingUrls p, errorUrls p))
       (projects (updateProjectStats db_submitted 7 99)) = [(2, 0, 1, 0)]"
proof -
  obtain p where ps: "projects (updateProjectStats db_submitted 7 99) = [p]" and "p_id p = 7"
    by (simp add: updateProjectStats_projects db_submitted_def project_fresh_def)
  with updateProjectStats_counters [of db_submitted 7 99]
  have "totalUrls p = length (filter (\<lambda>u. u_projectId u = 7) (urls db_submitted))"
    and "indexedUrls p =
      length (filter (\<lambda>u. u_projectId u = 7 \<and> googleStatus u = Some INDEXED) (urls db_submitted))"
    and "pendingUrls p =
      length (filter (\<lambda>u. u_projectId u = 7 \<and>
                (googleStatus u = Some DISCOVERED \<or> googleStatus u = Some QUEUED)) (urls db_submitted))"
    and "errorUrls p =
      length (filter (\<lambda>u. u_projectId u = 7 \<and>
                (googleStatus u = Some ERROR_4XX \<or> googleStatus u = Some ERROR_5XX \<or>
                 googleStatus u = Some CRAWL_ERROR)) (urls db_submitted))"
    by simp_all
  then show ?thesis
    unfolding ps by (simp add: db_submitted_def url_fresh_def)
qed

text \<open>
  The specification counts SUBMITTED rows as pending; the query does not. In the project above,
  two rows have a status among DISCOVERED, QUEUED, SUBMITTED, and the counter written
  is 1.
\<close>

theorem updateProjectStats_pending_counterexample:
  "length (filter (google_status_in [DISCOVERED, QUEUED, SUBMITTED])
             (filter (\<lambda>u. u_projectId u = 7) (urls db_submitted))) = 2 \<and>
   map pendingUrls (projects (updateProjectStats db_submitted 7 99)) = [1]"
  by (simp add: updateProjectStats_projects selectStats_counts google_status_in_iff
        db_submitted_def url_fresh_def project_fresh_def)

section \<open>Properties of the quota bookkeeping and the Google submitter\<close>

lemma find_map_preserve:
  assumes "\<And>x. P (f x) = P x"
  shows "find P (map f xs) = map_option f (find P xs)"
  using assms by (induction xs) auto

lemma find_append_None:
  "find P xs = None \<Longrightarrow> find P (xs @ ys) = find P ys"
  by (induction xs) (auto split: if_splits)

lemma currentUsage_upsertQuota:
  "currentUsage (upsertQuota pid eng date n l d) pid eng date = currentUsage d pid eng date + n"
proof (cases "list_ex (quota_key pid eng date) (quotaUsage d)")
  case True
  then obtain r where r: "find (quota_key pid eng date) (quotaUsage d) = Some r"
    by (cases "find (quota_key pid eng date) (quotaUsage d)") (auto simp: find_None_iff list_ex_iff)
  have k: "\<And>x. quota_key pid eng date (if quota_key pid eng date x then x\<lparr>used := used x + n\<rparr> else x)
              = quota_key pid eng date x"
    by (simp add: quota_key_def)
  from r have kr: "quota_key pid eng date r" by (auto simp: find_Some_iff)
  show ?thesis
    using True r kr
    by (simp add: currentUsage_def upsertQuota_def
          find_map_preserve[where P="quota_key pid eng date"
            and f="\<lambda>r. if quota_key pid eng date r then r\<lparr>used := used r + n\<rparr> else r", OF k])
next
  case False
  then have "find (quota_key pid eng date) (quotaUsage d) = None"
    by (simp add: find_None_iff list_ex_iff)
  with False show ?thesis
    by (simp add: currentUsage_def upsertQuota_def find_append_None quota_key_def)
qed

lemma length_selectUrlRecords:
  assumes "distinct (map u_id (urls d))"
  shows "length (selectUrlRecords d ids) \<le> length ids"
proof -
  let ?rows = "filter (\<lambda>u. u_id u \<in> set ids) (urls d)"
  have "distinct (map u_id ?rows)" using assms by (simp add: distinct_map_filter)
  then have "length ?rows = card (set (map u_id ?rows))"
    by (metis distinct_card length_map)
  also have "\<dots> \<le> card (set ids)" by (rule card_mono) auto
  also have "\<dots> \<le> length ids" by (rule card_length)
  finally show ?thesis by (simp add: selectUrlRecords_def)
qed



lemma submitAll_length: "length (fst (submitAll env urlRecords act tr)) = length urlRecords"
  by (induction urlRecords arbitrary: tr) (simp_all add: case_prod_unfold)


lemma submitAll_nil_trace: "snd (submitAll env [] act tr) = tr"
  by simp

lemma currentUsage_cong:
  "quotaUsage d = quotaUsage d' \<Longrightarrow> currentUsage d pid eng date = currentUsage d' pid eng date"
  by (simp add: currentUsage_def)

lemma quotaUsage_markGoogleSubmitted [simp]:
  "quotaUsage (markGoogleSubmitted ids now d) = quotaUsage d"
  by (simp add: markGoogleSubmitted_def)

lemma submitAll_nil_iff: "fst (submitAll env urlRecords act tr) = [] \<longleftrightarrow> urlRecords = []"
  using submitAll_length[of env urlRecords act tr] by (metis length_0_conv)

lemma prepareSubmission_read:
  assumes "find (\<lambda>c. c_projectId c = j_projectId job \<and> c_engine c = GOOGLE) (credentials d) = Some credential"
    and "openCredential env credential = Some serviceAccount"
  shows "prepareSubmission env job today d =
     (if DAILY_QUOTA - currentUsage d (j_projectId job) GOOGLE today \<le> 0 then Inl QuotaExhausted
      else Inr (selectUrlRecords d
                  (take (nat (DAILY_QUOTA - currentUsage d (j_projectId job) GOOGLE today)) (urlIds job))))"
  using assms by (simp add: prepareSubmission_def Let_def)

lemma submitAndRecord_empty:
  "submitAndRecord env job today now [] d tr = (Inl EmptyInsert, d, tr)"
  by (simp add: submitAndRecord_def)

lemma submitAndRecord_submits:
  assumes "urlRecords \<noteq> []"
    and "results = fst (submitAll env urlRecords (action job) tr)"
  shows "submitAndRecord env job today now urlRecords d tr =
     (Inr (length (filter success results), length (filter (\<lambda>r. \<not> success r) results)),
      upsertQuota (j_projectId job) GOOGLE today (int (length (filter success results))) DAILY_QUOTA
       (markGoogleSubmitted (map r_urlId (filter success results)) now
          (d\<lparr>submissions := submissions d @
                 map (submissionRecord (j_projectId job) (action job) now) results\<rparr>)),
      snd (submitAll env urlRecords (action job) tr))"
proof -
  from assms(1) have "fst (submitAll env urlRecords (action job) tr) \<noteq> []"
    by (simp add: submitAll_nil_iff)
  then show ?thesis
    unfolding submitAndRecord_def assms(2)
    by (simp add: Let_def case_prod_unfold)
qed

lemma submitAndRecord_usage:
  assumes "urlRecords \<noteq> []"
  shows "currentUsage (fst (snd (submitAndRecord env job today now urlRecords d tr)))
           (j_projectId job) GOOGLE today =
         currentUsage d (j_projectId job) GOOGLE today +
           int (length (filter success (fst (submitAll env urlRecords (action job) tr))))"
  unfolding submitAndRecord_submits[OF assms refl]
  by (simp add: currentUsage_upsertQuota) (rule currentUsage_cong, simp)

lemma googleSubmitterWorker_exhausted:
  assumes "find (\<lambda>c. c_projectId c = j_projectId job \<and> c_engine c = GOOGLE) (credentials d) = Some credential"
    and "openCredential env credential = Some serviceAccount"
    and "DAILY_QUOTA - currentUsage d (j_projectId job) GOOGLE today \<le> 0"
  shows "googleSubmitterWorker env job today now d tr = (Inl QuotaExhausted, d, tr)"
  using assms(3)
  by (simp add: googleSubmitterWorker_def continueSubmission_def prepareSubmission_read[OF assms(1,2)])

lemma googleSubmitterWorker_selected:
  assumes "find (\<lambda>c. c_projectId c = j_projectId job \<and> c_engine c = GOOGLE) (credentials d) = Some credential"
    and "openCredential env credential = Some serviceAccount"
    and "\<not> DAILY_QUOTA - currentUsage d (j_projectId job) GOOGLE today \<le> 0"
    and "urlRecords = selectUrlRecords d
           (take (nat (DAILY_QUOTA - currentUsage d (j_projectId job) GOOGLE today)) (urlIds job))"
  shows "googleSubmitterWorker env job today now d tr =
           submitAndRecord env job today now urlRecords d tr"
  using assms(3) unfolding assms(4)
  by (simp add: googleSubmitterWorker_def continueSubmission_def prepareSubmission_read[OF assms(1,2)])

lemma job_five_run:
  "fst (googleSubmitterWorker env_accept job_five 20 99 db_quota_198 []) = Inr (2, 0)"
  "snd (snd (googleSubmitterWorker env_accept job_five 20 99 db_quota_198 [])) = [''http://t/1'', ''http://t/2'']"
  "map googleStatus (urls (fst (snd (googleSubmitterWorker env_accept job_five 20 99 db_quota_198 [])))) =
     [Some SUBMITTED, Some SUBMITTED, Some DISCOVERED, Some DISCOVERED, Some DISCOVERED]"
  "currentUsage (fst (snd (googleSubmitterWorker env_accept job_five 20 99 db_quota_198 []))) 7 GOOGLE 20 = 200"
  by code_simp+

text \<open>
  A job that runs with no other job of the project beside it. Once the credential has
  been loaded, the job computes \<open>remaining = 200 - used\<close> from the quota row of
  (project, GOOGLE, today), before any request. If \<open>remaining \<le> 0\<close> it fails with the
  quota-exhausted error, sends no request and leaves the database as it was. Otherwise
  the URL ids are cut to at most \<open>remaining\<close>. If none of them is the id of a URL row,
  the job fails at the insert of its submission rows, again with no request sent and
  nothing written. If one is, the job completes, the submissions it attempts (successful
  or not) are at most \<open>remaining\<close>, \<open>used\<close> grows by the number of successful ones and
  stays within 200. (The primary key makes the ids of the URL rows distinct.)
\<close>

lemma googleSubmitterWorker_alone:
  assumes "distinct (map u_id (urls d))"
    and "find (\<lambda>c. c_projectId c = j_projectId job \<and> c_engine c = GOOGLE) (credentials d) = Some credential"
    and "openCredential env credential = Some serviceAccount"
    and "googleSubmitterWorker env job today now d tr = (res, d', tr')"
  shows "let usedBefore = currentUsage d (j_projectId job) GOOGLE today;
             remaining = 200 - usedBefore
         in if remaining \<le> 0
            then res = Inl QuotaExhausted \<and> d' = d \<and> tr' = tr
            else if selectUrlRecords d (take (nat remaining) (urlIds job)) = []
            then res = Inl EmptyInsert \<and> d' = d \<and> tr' = tr
            else (\<exists>successCount failCount.
                    res = Inr (successCount, failCount) \<and>
                    int (successCount + failCount) \<le> remaining \<and>
                    successCount + failCount \<le> length (urlIds job) \<and>
                    currentUsage d' (j_projectId job) GOOGLE today = usedBefore + int successCount \<and>
                    currentUsage d' (j_projectId job) GOOGLE today \<le> 200)"
proof (cases "DAILY_QUOTA - currentUsage d (j_projectId job) GOOGLE today \<le> 0")
  case True
  from googleSubmitterWorker_exhausted[OF assms(2,3) True, of now tr] assms(4)
  have "res = Inl QuotaExhausted \<and> d' = d \<and> tr' = tr" by simp
  with True show ?thesis by (simp add: DAILY_QUOTA_def Let_def)
next
  case False
  define remaining where "remaining = DAILY_QUOTA - currentUsage d (j_projectId job) GOOGLE today"
  define urlRecords where "urlRecords = selectUrlRecords d (take (nat remaining) (urlIds job))"
  define results where "results = fst (submitAll env urlRecords (action job) tr)"
  have recs: "urlRecords = selectUrlRecords d
           (take (nat (DAILY_QUOTA - currentUsage d (j_projectId job) GOOGLE today)) (urlIds job))"
    by (simp add: urlRecords_def remaining_def)
  note run = googleSubmitterWorker_selected[OF assms(2,3) False recs, of now tr]
  show ?thesis
  proof (cases "urlRecords = []")
    case True
    with run assms(4) have "res = Inl EmptyInsert \<and> d' = d \<and> tr' = tr"
      by (simp add: submitAndRecord_empty)
    with True False show ?thesis
      by (simp add: Let_def urlRecords_def remaining_def DAILY_QUOTA_def)
  next
    case nonempty: False
    from run assms(4) have whole: "submitAndRecord env job today now urlRecords d tr = (res, d', tr')"
      by simp
    from whole have res: "res = Inr (length (filter success results), length (filter (\<lambda>r. \<not> success r) results))"
      unfolding submitAndRecord_submits[OF nonempty results_def] by simp
    from whole submitAndRecord_usage[OF nonempty, of env job today now d tr]
    have usage: "currentUsage d' (j_projectId job) GOOGLE today =
        currentUsage d (j_projectId job) GOOGLE today + int (length (filter success results))"
      by (simp add: results_def)
    have "length results = length urlRecords"
      by (simp add: results_def submitAll_length)
    also have "\<dots> \<le> length (take (nat remaining) (urlIds job))"
      unfolding urlRecords_def by (rule length_selectUrlRecords[OF assms(1)])
    finally have len: "length results \<le> min (length (urlIds job)) (nat remaining)" by simp
    have split: "length (filter success results) + length (filter (\<lambda>r. \<not> success r) results) = length results"
      by (rule sum_length_filter_compl)
    from False have pos: "0 < remaining" by (simp add: remaining_def)
    have "int (length (filter success results) + length (filter (\<lambda>r. \<not> success r) results)) \<le> remaining"
      using len pos unfolding split by linarith
    moreover have "length (filter success results) + length (filter (\<lambda>r. \<not> success r) results) \<le> length (urlIds job)"
      using len unfolding split by linarith
    moreover have "int (length (filter success results)) \<le> remaining"
      using calculation(1) by linarith
    ultimately show ?thesis
      using res usage False nonempty
      by (simp add: Let_def remaining_def urlRecords_def DAILY_QUOTA_def)
  qed
qed

text \<open>
  C1 at two jobs of one project that the worker runs at the same time, on a day with 198
  of 200 used and an API that accepts every request. Each job reads \<open>used = 198\<close>
  before the other has written, each cuts its list to two URLs and submits them, each
  returns \<^verbatim>\<open>{successCount: 2, failCount: 0}\<close>; four URLs are submitted, four rows are marked
  SUBMITTED, and the quota row of the day ends at 202 of 200.
\<close>

theorem googleSubmitterWorker_quota_overrun:
  "currentUsage db_quota_198 7 GOOGLE 20 = 198 \<and>
   prepareSubmission env_accept job_five 20 db_quota_198 =
     Inr [(1, ''http://t/1''), (2, ''http://t/2'')] \<and>
   prepareSubmission env_accept job_last_three 20 db_quota_198 =
     Inr [(3, ''http://t/3''), (4, ''http://t/4'')] \<and>
   fst (twoJobs env_accept job_five job_last_three 20 99 db_quota_198) = Inr (2, 0) \<and>
   fst (snd (twoJobs env_accept job_five job_last_three 20 99 db_quota_198)) = Inr (2, 0) \<and>
   snd (snd (snd (twoJobs env_accept job_five job_last_three 20 99 db_quota_198))) =
     [''http://t/1'', ''http://t/2'', ''http://t/3'', ''http://t/4''] \<and>
   map googleStatus
     (urls (fst (snd (snd (twoJobs env_accept job_five job_last_three 20 99 db_quota_198))))) =
     [Some SUBMITTED, Some SUBMITTED, Some SUBMITTED, Some SUBMITTED, Some DISCOVERED] \<and>
   currentUsage (fst (snd (snd (twoJobs env_accept job_five job_last_three 20 99 db_quota_198))))
     7 GOOGLE 20 = 202"
  by code_simp

section \<open>Properties of the in-browser Google submitter\<close>
















section \<open>Properties of the quota increments\<close>


lemma quotaUsage_markBingSubmitted [simp]:
  "quotaUsage (markBingSubmitted ids now d) = quotaUsage d"
  by (simp add: markBingSubmitted_def)











declare attemptIndexNowBatch.simps [simp del]

section \<open>Properties of the IndexNow batches\<close>

lemma attemptIndexNowBatch_split:
  assumes "fetchIndexNow (length (requests st)) urlList = Response res"
    and "\<not> accepted res" and "status res = 429 \<or> status res = 422" and "length urlList > 10"
  shows "attemptIndexNowBatch fetchIndexNow urlList st =
     (let half1 = attemptIndexNowBatch fetchIndexNow (take (length urlList div 2) urlList)
                    (wait 1000 (sent urlList st));
          half2 = attemptIndexNowBatch fetchIndexNow (drop (length urlList div 2) urlList) (snd half1)
      in ((fst (fst half1) + fst (fst half2), snd (fst half1) + snd (fst half2)), snd half2))"
  using assms
  by (subst attemptIndexNowBatch.simps) (simp add: Let_def case_prod_unfold)

lemma attemptIndexNowBatch_counts:
  "fst (fst (attemptIndexNowBatch fetchIndexNow urlList st)) +
   snd (fst (attemptIndexNowBatch fetchIndexNow urlList st)) = length urlList"
proof (induction fetchIndexNow urlList st rule: attemptIndexNowBatch.induct)
  case (1 f urlList st)
  show ?case
  proof (cases "f (length (requests st)) urlList")
    case NetworkError
    then show ?thesis by (subst attemptIndexNowBatch.simps, simp)+
  next
    case (Response res)
    show ?thesis
    proof (cases "\<not> accepted res \<and> (status res = 429 \<or> status res = 422) \<and> length urlList > 10")
      case False
      with Response show ?thesis by (subst attemptIndexNowBatch.simps, auto)+
    next
      case True
      then have c: "\<not> accepted res" "status res = 429 \<or> status res = 422" "10 < length urlList"
        by simp_all
      obtain r1 st1 where h1: "attemptIndexNowBatch f (take (length urlList div 2) urlList)
                    (wait 1000 (sent urlList st)) = (r1, st1)"
        by (cases "attemptIndexNowBatch f (take (length urlList div 2) urlList)
                    (wait 1000 (sent urlList st))")
      from "1.IH"(1)[OF Response c(1) _ refl refl refl] c h1
      have a: "fst r1 + snd r1 = length (take (length urlList div 2) urlList)" by simp
      from "1.IH"(2)[OF Response c(1) _ refl refl refl h1[symmetric]] c
      have b: "fst (fst (attemptIndexNowBatch f (drop (length urlList div 2) urlList) st1)) +
               snd (fst (attemptIndexNowBatch f (drop (length urlList div 2) urlList) st1)) =
               length (drop (length urlList div 2) urlList)" by simp
      show ?thesis
        unfolding attemptIndexNowBatch_split[where fetchIndexNow = f and st = st and urlList = urlList
            and res = res, OF Response c] Let_def h1
        using a b by simp
    qed
  qed
qed

lemma attemptIndexNowBatch_retrying_requests:
  "\<exists>n. 0 < n \<and> n \<le> Suc retries \<and>
       requests (snd (attemptIndexNowBatch_retrying f urlList retries st)) =
         requests st @ replicate n urlList"
proof (induction retries arbitrary: st)
  case 0
  show ?case
    by (rule exI[of _ 1]) (simp add: sent_def split: fetch_result.splits)
next
  case (Suc k)
  from Suc[of "wait 3000 (sent urlList st)"] obtain n where n: "0 < n" "n \<le> Suc k"
    "requests (snd (attemptIndexNowBatch_retrying f urlList k (wait 3000 (sent urlList st)))) =
       (requests st @ [urlList]) @ replicate n urlList"
    by (auto simp: wait_def sent_def)
  then have again: "requests (snd (attemptIndexNowBatch_retrying f urlList k (wait 3000 (sent urlList st)))) =
       requests st @ replicate (Suc n) urlList"
    by (simp add: replicate_app_Cons_same)
  show ?case
  proof (cases "f (length (requests st)) urlList")
    case NetworkError
    with again n show ?thesis by (intro exI[of _ "Suc n"]) simp
  next
    case (Response res)
    show ?thesis
    proof (cases "\<not> accepted res \<and> (status res \<ge> 500 \<or> status res = 429)")
      case True
      with Response again n show ?thesis by (intro exI[of _ "Suc n"]) auto
    next
      case False
      with Response show ?thesis by (intro exI[of _ 1]) (auto simp: sent_def)
    qed
  qed
qed

lemma attemptIndexNowBatch_retrying_result:
  "fst (attemptIndexNowBatch_retrying f urlList retries st) = (length urlList, 0) \<or>
   fst (attemptIndexNowBatch_retrying f urlList retries st) = (0, length urlList)"
  by (induction retries arbitrary: st) (auto split: fetch_result.splits)

lemma attemptIndexNowBatch_retrying_rejected:
  assumes "f (length (requests st)) urlList = Response res"
    and "\<not> accepted res" and "status res < 500" and "status res \<noteq> 429"
  shows "attemptIndexNowBatch_retrying f urlList retries st = ((0, length urlList), sent urlList st)"
  using assms by (cases retries) simp_all

lemma pRetry_post_requests:
  "\<exists>n. 0 < n \<and> n \<le> Suc retries \<and>
       snd (pRetry_post env endpoint urlList retries posted) = posted @ replicate n urlList \<and>
       (fst (pRetry_post env endpoint urlList retries posted) \<longleftrightarrow>
          (\<exists>res. post env endpoint (length posted + n - 1) urlList = Response res \<and> ok res))"
proof (induction retries arbitrary: posted)
  case 0
  show ?case
    by (rule exI[of _ 1]) (simp split: fetch_result.splits)
next
  case (Suc k)
  from Suc[of "posted @ [urlList]"] obtain n where n: "0 < n" "n \<le> Suc k"
    and tr: "snd (pRetry_post env endpoint urlList k (posted @ [urlList])) =
               (posted @ [urlList]) @ replicate n urlList"
    and flag: "fst (pRetry_post env endpoint urlList k (posted @ [urlList])) \<longleftrightarrow>
          (\<exists>res. post env endpoint (length (posted @ [urlList]) + n - 1) urlList = Response res \<and> ok res)"
    by blast
  from tr have tr': "snd (pRetry_post env endpoint urlList k (posted @ [urlList])) =
               posted @ replicate (Suc n) urlList"
    by (simp add: replicate_app_Cons_same)
  from flag n have flag': "fst (pRetry_post env endpoint urlList k (posted @ [urlList])) \<longleftrightarrow>
          (\<exists>res. post env endpoint (length posted + Suc n - 1) urlList = Response res \<and> ok res)"
    by simp
  show ?case
  proof (cases "post env endpoint (length posted) urlList")
    case NetworkError
    with tr' flag' n show ?thesis by (intro exI[of _ "Suc n"]) simp
  next
    case (Response res)
    show ?thesis
    proof (cases "ok res")
      case True
      with Response show ?thesis by (intro exI[of _ 1]) simp
    next
      case False
      with Response tr' flag' n show ?thesis by (intro exI[of _ "Suc n"]) simp
    qed
  qed
qed

lemma pRetry_post_rejected:
  assumes "\<forall>k \<le> retries. \<forall>res. post env endpoint (length posted + k) urlList = Response res \<longrightarrow> \<not> ok res"
  shows "pRetry_post env endpoint urlList retries posted =
           (False, posted @ replicate (Suc retries) urlList)"
  using assms
proof (induction retries arbitrary: posted)
  case 0
  then show ?case by (simp split: fetch_result.splits)
next
  case (Suc k)
  from Suc.prems have here: "\<forall>res. post env endpoint (length posted) urlList = Response res \<longrightarrow> \<not> ok res"
    by (metis add.right_neutral le0)
  have "\<forall>j \<le> k. \<forall>res. post env endpoint (length (posted @ [urlList]) + j) urlList = Response res \<longrightarrow> \<not> ok res"
  proof (intro allI impI)
    fix j res
    assume "j \<le> k" and "post env endpoint (length (posted @ [urlList]) + j) urlList = Response res"
    with Suc.prems[rule_format, of "Suc j" res] show "\<not> ok res" by simp
  qed
  from Suc.IH[OF this] here show ?case
    by (simp add: replicate_app_Cons_same split: fetch_result.splits)
qed

lemma forty_urls_length: "length forty_urls = 40"
  by (simp add: forty_urls_def)

lemma forty_split_run:
  "submitIndexNowBulk fetch_rejects_forty forty_urls =
     ((40, 0), \<lparr>requests = [forty_urls, take 20 forty_urls, drop 20 forty_urls], waited = 1000\<rparr>)"
  by code_simp

text \<open>
  C8 (as the code has it). In the version of \<^verbatim>\<open>attemptIndexNowBatch\<close> with adaptive
  splitting, a call that is answered 429 or 422 for a batch of more than 10 URLs cuts
  the batch in two halves (the first \<open>n div 2\<close> URLs and the rest), waits one second,
  submits each half in turn and reports the sums of the two results; every URL of a
  batch is counted once, as submitted or as error. The version with retries never cuts
  a batch: all its requests, three at most, carry the whole list, and the whole batch is
  reported as submitted or as failed; a rejection that is neither a 429 nor a 5xx, a 422
  among them, ends the call with the request it answers, however many retries are left,
  and with the whole batch failed. The worker's \<^verbatim>\<open>submitToEngine\<close>
  never cuts a batch either: all its requests, four at most, carry the whole list, its
  one flag \<^verbatim>\<open>success\<close> tells whether the last of them was answered \<^verbatim>\<open>ok\<close>, and when no
  answer is \<^verbatim>\<open>ok\<close> (a 422 every time, say) it has sent four.
\<close>

theorem attemptIndexNowBatch_splitting:
  "(fetchIndexNow (length (requests st)) urlList = Response res \<and> \<not> accepted res \<and>
    (status res = 429 \<or> status res = 422) \<and> length urlList > 10 \<longrightarrow>
      attemptIndexNowBatch fetchIndexNow urlList st =
        (let half1 = attemptIndexNowBatch fetchIndexNow (take (length urlList div 2) urlList)
                       (wait 1000 (sent urlList st));
             half2 = attemptIndexNowBatch fetchIndexNow (drop (length urlList div 2) urlList)
                       (snd half1)
         in ((fst (fst half1) + fst (fst half2), snd (fst half1) + snd (fst half2)), snd half2))) \<and>
   fst (fst (attemptIndexNowBatch fetchIndexNow urlList st)) +
     snd (fst (attemptIndexNowBatch fetchIndexNow urlList st)) = length urlList \<and>
   (\<exists>n. 0 < n \<and> n \<le> 3 \<and>
        requests (snd (submitIndexNowBulk_retrying fetchIndexNow urlList)) = replicate n urlList) \<and>
   (fst (submitIndexNowBulk_retrying fetchIndexNow urlList) = (length urlList, 0) \<or>
    fst (submitIndexNowBulk_retrying fetchIndexNow urlList) = (0, length urlList)) \<and>
   (fetchIndexNow (length (requests st)) urlList = Response rejection \<and> \<not> accepted rejection \<and>
    status rejection < 500 \<and> status rejection \<noteq> 429 \<longrightarrow>
      attemptIndexNowBatch_retrying fetchIndexNow urlList retries st =
        ((0, length urlList), sent urlList st)) \<and>
   (\<exists>n. 0 < n \<and> n \<le> 4 \<and>
        snd (submitToEngine env endpoint urlList) = replicate n urlList \<and>
        (fst (submitToEngine env endpoint urlList) \<longleftrightarrow>
           (\<exists>answer. post env endpoint (n - 1) urlList = Response answer \<and> ok answer))) \<and>
   ((\<forall>k < 4. \<forall>answer. post env endpoint k urlList = Response answer \<longrightarrow> \<not> ok answer) \<longrightarrow>
      submitToEngine env endpoint urlList = (False, replicate 4 urlList))"
proof (intro conjI impI)
  assume a: "fetchIndexNow (length (requests st)) urlList = Response res \<and> \<not> accepted res \<and>
    (status res = 429 \<or> status res = 422) \<and> length urlList > 10"
  show "attemptIndexNowBatch fetchIndexNow urlList st =
        (let half1 = attemptIndexNowBatch fetchIndexNow (take (length urlList div 2) urlList)
                       (wait 1000 (sent urlList st));
             half2 = attemptIndexNowBatch fetchIndexNow (drop (length urlList div 2) urlList)
                       (snd half1)
         in ((fst (fst half1) + fst (fst half2), snd (fst half1) + snd (fst half2)), snd half2))"
    by (rule attemptIndexNowBatch_split[where res = res]) (use a in simp_all)
next
  show "fst (fst (attemptIndexNowBatch fetchIndexNow urlList st)) +
     snd (fst (attemptIndexNowBatch fetchIndexNow urlList st)) = length urlList"
    by (rule attemptIndexNowBatch_counts)
next
  from attemptIndexNowBatch_retrying_requests[of 2 fetchIndexNow urlList "\<lparr>requests = [], waited = 0\<rparr>"]
  show "\<exists>n. 0 < n \<and> n \<le> 3 \<and>
        requests (snd (submitIndexNowBulk_retrying fetchIndexNow urlList)) = replicate n urlList"
    by (simp add: submitIndexNowBulk_retrying_def numeral_3_eq_3)
next
  from attemptIndexNowBatch_retrying_result[of fetchIndexNow urlList 2 "\<lparr>requests = [], waited = 0\<rparr>"]
  show "fst (submitIndexNowBulk_retrying fetchIndexNow urlList) = (length urlList, 0) \<or>
    fst (submitIndexNowBulk_retrying fetchIndexNow urlList) = (0, length urlList)"
    by (simp add: submitIndexNowBulk_retrying_def)
next
  assume "fetchIndexNow (length (requests st)) urlList = Response rejection \<and> \<not> accepted rejection \<and>
    status rejection < 500 \<and> status rejection \<noteq> 429"
  then show "attemptIndexNowBatch_retrying fetchIndexNow urlList retries st =
        ((0, length urlList), sent urlList st)"
    by (intro attemptIndexNowBatch_retrying_rejected[where res = rejection]) simp_all
next
  from pRetry_post_requests[of 3 env endpoint urlList "[]"]
  show "\<exists>n. 0 < n \<and> n \<le> 4 \<and>
        snd (submitToEngine env endpoint urlList) = replicate n urlList \<and>
        (fst (submitToEngine env endpoint urlList) \<longleftrightarrow>
           (\<exists>answer. post env endpoint (n - 1) urlList = Response answer \<and> ok answer))"
    by (simp add: submitToEngine_def MAX_RETRIES_def)
next
  assume "\<forall>k < 4. \<forall>answer. post env endpoint k urlList = Response answer \<longrightarrow> \<not> ok answer"
  then have "\<forall>k \<le> 3. \<forall>res. post env endpoint (length ([] :: string list list) + k) urlList = Response res \<longrightarrow> \<not> ok res"
    by (auto simp: less_Suc_eq_le[symmetric] eval_nat_numeral)
  from pRetry_post_rejected[OF this]
  show "submitToEngine env endpoint urlList = (False, replicate 4 urlList)"
    by (simp add: submitToEngine_def MAX_RETRIES_def numeral_Bit0 numeral_Bit1)
qed

theorem attemptIndexNowBatch_splitting_witness:
  "fetch_rejects_forty 0 forty_urls = respond 422 \<and>
   submitIndexNowBulk fetch_rejects_forty forty_urls =
     ((40, 0), \<lparr>requests = [forty_urls, take 20 forty_urls, drop 20 forty_urls], waited = 1000\<rparr>) \<and>
   attemptIndexNowBatch fetch_rejects_forty forty_urls \<lparr>requests = [], waited = 0\<rparr> =
     (let half1 = attemptIndexNowBatch fetch_rejects_forty (take 20 forty_urls)
                    \<lparr>requests = [forty_urls], waited = 1000\<rparr>;
          half2 = attemptIndexNowBatch fetch_rejects_forty (drop 20 forty_urls) (snd half1)
      in ((fst (fst half1) + fst (fst half2), snd (fst half1) + snd (fst half2)), snd half2)) \<and>
   submitIndexNowBulk_retrying fetch_rejects_forty forty_urls =
     ((0, length forty_urls), \<lparr>requests = [forty_urls], waited = 0\<rparr>) \<and>
   submitToEngine env_unprocessable ''https://www.bing.com/indexnow'' forty_urls =
     (False, replicate 4 forty_urls)"
proof -
  have r: "fetch_rejects_forty (length (requests \<lparr>requests = [], waited = 0\<rparr>)) forty_urls =
             Response \<lparr>status = 422, res_text = [], jsonErrorMessage = None\<rparr>"
    by (simp add: fetch_rejects_forty_def forty_urls_length respond_def)
  have n: "\<not> accepted \<lparr>status = 422, res_text = [], jsonErrorMessage = None\<rparr>"
    by (simp add: accepted_def ok_def)
  have never: "\<forall>k < 4. \<forall>answer.
      post env_unprocessable ''https://www.bing.com/indexnow'' k forty_urls = Response answer \<longrightarrow>
      \<not> ok answer"
    by (auto simp: env_unprocessable_def fetch_unprocessable_def respond_def ok_def)
  note inst = attemptIndexNowBatch_splitting[where fetchIndexNow = fetch_rejects_forty
      and st = "\<lparr>requests = [], waited = 0\<rparr>" and urlList = forty_urls
      and res = "\<lparr>status = 422, res_text = [], jsonErrorMessage = None\<rparr>"
      and rejection = "\<lparr>status = 422, res_text = [], jsonErrorMessage = None\<rparr>"
      and retries = 2
      and env = env_unprocessable and endpoint = "''https://www.bing.com/indexnow''"]
  from inst r n
  have "attemptIndexNowBatch fetch_rejects_forty forty_urls \<lparr>requests = [], waited = 0\<rparr> =
        (let half1 = attemptIndexNowBatch fetch_rejects_forty (take (length forty_urls div 2) forty_urls)
                       (wait 1000 (sent forty_urls \<lparr>requests = [], waited = 0\<rparr>));
             half2 = attemptIndexNowBatch fetch_rejects_forty (drop (length forty_urls div 2) forty_urls)
                       (snd half1)
         in ((fst (fst half1) + fst (fst half2), snd (fst half1) + snd (fst half2)), snd half2))"
    by (simp add: forty_urls_length)
  then have split: "attemptIndexNowBatch fetch_rejects_forty forty_urls \<lparr>requests = [], waited = 0\<rparr> =
     (let half1 = attemptIndexNowBatch fetch_rejects_forty (take 20 forty_urls)
                    \<lparr>requests = [forty_urls], waited = 1000\<rparr>;
          half2 = attemptIndexNowBatch fetch_rejects_forty (drop 20 forty_urls) (snd half1)
      in ((fst (fst half1) + fst (fst half2), snd (fst half1) + snd (fst half2)), snd half2))"
    by (simp add: forty_urls_length wait_def sent_def)
  from inst r n
  have "attemptIndexNowBatch_retrying fetch_rejects_forty forty_urls 2 \<lparr>requests = [], waited = 0\<rparr> =
     ((0, length forty_urls), sent forty_urls \<lparr>requests = [], waited = 0\<rparr>)"
    by simp
  then have once: "submitIndexNowBulk_retrying fetch_rejects_forty forty_urls =
     ((0, length forty_urls), \<lparr>requests = [forty_urls], waited = 0\<rparr>)"
    by (simp add: submitIndexNowBulk_retrying_def sent_def)
  from inst never
  have four: "submitToEngine env_unprocessable ''https://www.bing.com/indexnow'' forty_urls =
     (False, replicate 4 forty_urls)"
    by blast
  have "fetch_rejects_forty 0 forty_urls = respond 422"
    by (simp add: fetch_rejects_forty_def forty_urls_length)
  with split once four show ?thesis using forty_split_run by blast
qed

text \<open>
  The same 40 URLs and the same 422 in the version with retries and in the worker: one
  request and the whole batch reported as failed; four requests of the whole batch and
  no success. Neither cuts the batch.
\<close>

theorem attemptIndexNowBatch_retrying_counterexample:
  "submitIndexNowBulk_retrying fetch_rejects_forty forty_urls =
     ((0, 40), \<lparr>requests = [forty_urls], waited = 0\<rparr>) \<and>
   submitToEngine env_unprocessable ''https://www.bing.com/indexnow'' forty_urls =
     (False, [forty_urls, forty_urls, forty_urls, forty_urls])"
  by code_simp

declare upsertFrom.simps [simp del]

section \<open>Properties of the URL store\<close>

lemma upsertFrom_nil:
  "upsertFrom sha256 accepts pid sid now tot processed [] d reported = (None, d, reported)"
  by (subst upsertFrom.simps) simp

lemma upsertFrom_short:
  assumes "remaining \<noteq> []" and "length remaining \<le> BATCH_SIZE"
  shows "upsertFrom sha256 accepts pid sid now tot processed remaining d reported =
     (case insertUrls sha256 accepts pid sid now remaining d of
        Inl e \<Rightarrow> (Some e, d, reported)
      | Inr d' \<Rightarrow> (None, d', reported @ [(processed + length remaining, tot)]))"
  using assms
  by (subst upsertFrom.simps) (simp add: Let_def upsertFrom_nil split: sum.splits)

lemma url_key_present:
  "list_ex (\<lambda>u. u_projectId u = pid \<and> locHash u = h) rows \<longleftrightarrow>
     (pid, h) \<in> set (map url_key rows)"
  by (auto simp: list_ex_iff url_key_def)

lemma upsertUrl_key_list:
  "map url_key (urls (upsertUrl sha256 pid sid now d e)) =
     (if (pid, sha256 (p_loc e)) \<in> set (map url_key (urls d)) then map url_key (urls d)
      else map url_key (urls d) @ [(pid, sha256 (p_loc e))])"
proof -
  have same: "url_key (if c then u\<lparr>sitemapId := a, lastmod := b, changefreq := f, priority := g\<rparr> else u)
                = url_key u" for c u a b f g
    by (simp add: url_key_def)
  show ?thesis
    unfolding upsertUrl_def url_key_present
    by (simp add: same o_def) (simp add: url_key_def)
qed

lemma upsertUrl_keys:
  "set (map url_key (urls (upsertUrl sha256 pid sid now d e))) =
     insert (pid, sha256 (p_loc e)) (set (map url_key (urls d)))"
  unfolding upsertUrl_key_list by auto

lemma upsertUrl_present:
  assumes "(pid, sha256 (p_loc e)) \<in> set (map url_key (urls d))"
  shows "map kept_columns (urls (upsertUrl sha256 pid sid now d e)) = map kept_columns (urls d)"
proof -
  have same: "kept_columns (if c then u\<lparr>sitemapId := a, lastmod := b, changefreq := f, priority := g\<rparr> else u)
                = kept_columns u" for c u a b f g
    by (simp add: kept_columns_def)
  from assms show ?thesis
    unfolding upsertUrl_def url_key_present
    by (simp add: same o_def)
qed

lemma upsertUrl_distinct:
  assumes "distinct (map url_key (urls d))"
  shows "distinct (map url_key (urls (upsertUrl sha256 pid sid now d e)))"
  unfolding upsertUrl_key_list using assms by simp

lemma foldl_upsertUrl_keys:
  "set (map url_key (urls (foldl (upsertUrl sha256 pid sid now) d batch))) =
     (\<lambda>e. (pid, sha256 (p_loc e))) ` set batch \<union> set (map url_key (urls d))"
  by (induction batch arbitrary: d) (auto simp: upsertUrl_keys simp del: set_map)

lemma foldl_upsertUrl_distinct:
  "distinct (map url_key (urls d)) \<Longrightarrow>
   distinct (map url_key (urls (foldl (upsertUrl sha256 pid sid now) d batch)))"
  by (induction batch arbitrary: d) (simp_all add: upsertUrl_distinct)

lemma foldl_upsertUrl_present:
  assumes "(\<lambda>e. (pid, sha256 (p_loc e))) ` set batch \<subseteq> set (map url_key (urls d))"
  shows "map kept_columns (urls (foldl (upsertUrl sha256 pid sid now) d batch)) =
           map kept_columns (urls d)"
  using assms
proof (induction batch arbitrary: d)
  case Nil
  show ?case by simp
next
  case (Cons e es)
  from Cons.prems have e: "(pid, sha256 (p_loc e)) \<in> set (map url_key (urls d))" by simp
  from Cons.prems have "(\<lambda>e. (pid, sha256 (p_loc e))) ` set es \<subseteq>
      set (map url_key (urls (upsertUrl sha256 pid sid now d e)))"
    unfolding upsertUrl_keys by auto
  from Cons.IH[OF this] upsertUrl_present[of pid sha256 e d, OF e]
  show ?case by simp
qed

lemma upsertFrom_step:
  "remaining \<noteq> [] \<Longrightarrow>
   upsertFrom sha256 accepts pid sid now tot processed remaining d reported =
     (case insertUrls sha256 accepts pid sid now (take BATCH_SIZE remaining) d of
        Inl e \<Rightarrow> (Some e, d, reported)
      | Inr d' \<Rightarrow>
          upsertFrom sha256 accepts pid sid now tot (processed + length (take BATCH_SIZE remaining))
            (drop BATCH_SIZE remaining) d'
            (reported @ [(processed + length (take BATCH_SIZE remaining), tot)]))"
  by (subst upsertFrom.simps) (simp add: Let_def)

lemma statementError_distinct:
  "statementError sha256 accepts proposed batch = None \<Longrightarrow>
   distinct (map (\<lambda>url. sha256 (p_loc url)) batch) \<and>
   set (map (\<lambda>url. sha256 (p_loc url)) batch) \<inter> set proposed = {}"
proof (induction batch arbitrary: proposed)
  case Nil
  show ?case by simp
next
  case (Cons url rest)
  from Cons.prems have row: "rowError sha256 accepts proposed url = None"
    and more: "statementError sha256 accepts (sha256 (p_loc url) # proposed) rest = None"
    by (simp_all split: option.splits)
  from row have "sha256 (p_loc url) \<notin> set proposed"
    by (simp add: rowError_def split: if_splits)
  with Cons.IH[OF more] show ?case by auto
qed

lemma insertUrls_Inr:
  "insertUrls sha256 accepts pid sid now batch d = Inr d' \<Longrightarrow>
     distinct (map (\<lambda>url. sha256 (p_loc url)) batch) \<and>
     d' = foldl (upsertUrl sha256 pid sid now) d batch"
  using statementError_distinct[of sha256 accepts "[]" batch]
  by (auto simp: insertUrls_def split: if_splits option.splits)

lemma insertUrls_again:
  "insertUrls sha256 accepts pid sid now batch d = Inr d' \<Longrightarrow>
   insertUrls sha256 accepts pid sidA nowA batch dA = Inr (foldl (upsertUrl sha256 pid sidA nowA) dA batch)"
  by (auto simp: insertUrls_def split: if_splits option.splits)

lemma upsertFrom_keys:
  assumes "upsertFrom sha256 accepts pid sid now tot processed remaining d reported = (None, d1, reported1)"
  shows "set (map url_key (urls d1)) =
           (\<lambda>e. (pid, sha256 (p_loc e))) ` set remaining \<union> set (map url_key (urls d))"
    and "distinct (map url_key (urls d)) \<Longrightarrow> distinct (map url_key (urls d1))"
  using assms
proof (induction sha256 accepts pid sid now tot processed remaining d reported
       rule: upsertFrom.induct)
  case (1 sha256 accepts pid sid now tot processed remaining d reported)
  {
    case 1
    show ?case
    proof (cases "remaining = []")
      case True
      with 1 show ?thesis by (simp add: upsertFrom_nil)
    next
      case False
      from 1 False obtain d' where
        ins: "insertUrls sha256 accepts pid sid now (take BATCH_SIZE remaining) d = Inr d'"
        and rest: "upsertFrom sha256 accepts pid sid now tot (processed + length (take BATCH_SIZE remaining))
            (drop BATCH_SIZE remaining) d'
            (reported @ [(processed + length (take BATCH_SIZE remaining), tot)]) =
            (None, d1, reported1)"
        by (auto simp: upsertFrom_step split: sum.splits)
      from insertUrls_Inr[OF ins]
      have d': "d' = foldl (upsertUrl sha256 pid sid now) d (take BATCH_SIZE remaining)"
        by simp
      have "set (map url_key (urls d1)) =
           (\<lambda>e. (pid, sha256 (p_loc e))) ` set (drop BATCH_SIZE remaining) \<union>
           set (map url_key (urls d'))"
        by (rule "1.IH"(1)[OF False refl ins rest])
      also have "\<dots> = (\<lambda>e. (pid, sha256 (p_loc e))) ` (set (take BATCH_SIZE remaining) \<union>
           set (drop BATCH_SIZE remaining)) \<union> set (map url_key (urls d))"
        unfolding d' foldl_upsertUrl_keys by blast
      also have "set (take BATCH_SIZE remaining) \<union> set (drop BATCH_SIZE remaining) = set remaining"
        by (metis append_take_drop_id set_append)
      finally show ?thesis .
    qed
  next
    case 2
    show ?case
    proof (cases "remaining = []")
      case True
      with 2 show ?thesis by (simp add: upsertFrom_nil)
    next
      case False
      from 2 False obtain d' where
        ins: "insertUrls sha256 accepts pid sid now (take BATCH_SIZE remaining) d = Inr d'"
        and rest: "upsertFrom sha256 accepts pid sid now tot (processed + length (take BATCH_SIZE remaining))
            (drop BATCH_SIZE remaining) d'
            (reported @ [(processed + length (take BATCH_SIZE remaining), tot)]) =
            (None, d1, reported1)"
        by (auto simp: upsertFrom_step split: sum.splits)
      from insertUrls_Inr[OF ins]
      have d': "d' = foldl (upsertUrl sha256 pid sid now) d (take BATCH_SIZE remaining)"
        by simp
      with 2(1) have "distinct (map url_key (urls d'))"
        by (simp add: foldl_upsertUrl_distinct)
      then show ?thesis
        by (rule "1.IH"(2)[OF False refl ins _ rest])
    qed
  }
qed

lemma upsertFrom_again:
  assumes "upsertFrom sha256 accepts pid sid now tot processed remaining d reported = (None, d1, reported1)"
    and "(\<lambda>e. (pid, sha256 (p_loc e))) ` set remaining \<subseteq> set (map url_key (urls dA))"
  shows "\<exists>dB reportedB.
           upsertFrom sha256 accepts pid sidA nowA totA processedA remaining dA reportedA = (None, dB, reportedB) \<and>
           map kept_columns (urls dB) = map kept_columns (urls dA)"
  using assms
proof (induction sha256 accepts pid sid now tot processed remaining d reported
       arbitrary: dA processedA reportedA rule: upsertFrom.induct)
  case (1 sha256 accepts pid sid now tot processed remaining d reported)
  show ?case
  proof (cases "remaining = []")
    case True
    then show ?thesis by (simp add: upsertFrom_nil)
  next
    case False
    let ?batch = "take BATCH_SIZE remaining"
    from "1.prems"(1) False obtain d' where
      ins: "insertUrls sha256 accepts pid sid now ?batch d = Inr d'"
      and rest: "upsertFrom sha256 accepts pid sid now tot (processed + length ?batch)
          (drop BATCH_SIZE remaining) d'
          (reported @ [(processed + length ?batch, tot)]) = (None, d1, reported1)"
      by (auto simp: upsertFrom_step split: sum.splits)
    define dA' where "dA' = foldl (upsertUrl sha256 pid sidA nowA) dA ?batch"
    have insA: "insertUrls sha256 accepts pid sidA nowA ?batch dA = Inr dA'"
      unfolding dA'_def by (rule insertUrls_again[OF ins])
    have "(\<lambda>e. (pid, sha256 (p_loc e))) ` set ?batch \<subseteq> set (map url_key (urls dA))"
      using "1.prems"(2) by (meson image_mono order_trans set_take_subset)
    then have kept: "map kept_columns (urls dA') = map kept_columns (urls dA)"
      unfolding dA'_def by (rule foldl_upsertUrl_present)
    have "(\<lambda>e. (pid, sha256 (p_loc e))) ` set (drop BATCH_SIZE remaining) \<subseteq>
            set (map url_key (urls dA))"
      using "1.prems"(2) by (meson image_mono order_trans set_drop_subset)
    then have "(\<lambda>e. (pid, sha256 (p_loc e))) ` set (drop BATCH_SIZE remaining) \<subseteq>
            set (map url_key (urls dA'))"
      unfolding dA'_def foldl_upsertUrl_keys by blast
    from "1.IH"[OF False refl ins rest this,
        of "processedA + length ?batch" "reportedA @ [(processedA + length ?batch, totA)]"]
    obtain dB reportedB where
      "upsertFrom sha256 accepts pid sidA nowA totA (processedA + length ?batch)
         (drop BATCH_SIZE remaining) dA'
         (reportedA @ [(processedA + length ?batch, totA)]) = (None, dB, reportedB)"
      and "map kept_columns (urls dB) = map kept_columns (urls dA')"
      by blast
    with kept insA False show ?thesis
      by (simp add: upsertFrom_step)
  qed
qed

lemma one_row_per_key:
  "distinct (map f rows) \<Longrightarrow> k \<in> set (map f rows) \<Longrightarrow>
   length (filter (\<lambda>u. f u = k) rows) = 1"
proof (induction rows)
  case Nil
  then show ?case by simp
next
  case (Cons u rows)
  show ?case
  proof (cases "f u = k")
    case True
    with Cons.prems have "filter (\<lambda>u. f u = k) rows = []"
      by (auto simp: filter_empty_conv intro: rev_image_eqI)
    with True show ?thesis by simp
  next
    case False
    with Cons show ?thesis by auto
  qed
qed

text \<open>
  The upsert is idempotent whenever the first run is accepted by the client and the
  database: a second run over the same entries (from another sitemap, at another time)
  is accepted too,
  adds no row and leaves every column outside the \<^verbatim>\<open>set\<close> clause as it was,
  \<^verbatim>\<open>firstSeenAt\<close> among them; each entry then has exactly one row.
\<close>

lemma batchUpsertUrls_idempotent:
  assumes "distinct (map url_key (urls d))"
    and "batchUpsertUrls sha256 accepts pid sid entries now d = (None, d1, progress1)"
  shows "\<exists>d2 progress2.
           batchUpsertUrls sha256 accepts pid sid2 entries now2 d1 = (None, d2, progress2) \<and>
           map kept_columns (urls d2) = map kept_columns (urls d1) \<and>
           list_all (\<lambda>e. length (filter (\<lambda>u. url_key u = (pid, sha256 (p_loc e))) (urls d2)) = 1)
                    entries"
proof -
  from assms(2) have first:
    "upsertFrom sha256 accepts pid sid now (length entries) 0 entries d [] = (None, d1, progress1)"
    by (simp add: batchUpsertUrls_def)
  note keys1 = upsertFrom_keys(1)[OF first] and dist1 = upsertFrom_keys(2)[OF first assms(1)]
  from keys1 have "(\<lambda>e. (pid, sha256 (p_loc e))) ` set entries \<subseteq> set (map url_key (urls d1))"
    by blast
  from upsertFrom_again[OF first this, of sid2 now2 "length entries" 0 "[]"]
  obtain d2 progress2 where
    second: "upsertFrom sha256 accepts pid sid2 now2 (length entries) 0 entries d1 [] = (None, d2, progress2)"
    and kept: "map kept_columns (urls d2) = map kept_columns (urls d1)"
    by blast
  note keys2 = upsertFrom_keys(1)[OF second] and dist2 = upsertFrom_keys(2)[OF second dist1]
  have "length (filter (\<lambda>u. url_key u = (pid, sha256 (p_loc e))) (urls d2)) = 1"
    if "e \<in> set entries" for e
    by (rule one_row_per_key[OF dist2]) (use that keys2 in blast)
  then have "list_all (\<lambda>e. length (filter (\<lambda>u. url_key u = (pid, sha256 (p_loc e))) (urls d2)) = 1)
                    entries"
    by (simp add: list_all_iff)
  with second kept show ?thesis
    by (auto simp: batchUpsertUrls_def)
qed

text \<open>
  C4 at a sitemap that lists the same page twice, whatever the hash function and
  whatever texts the columns accept: the insert of the batch is refused, the scan fails,
  and no row is stored for the page, on the first run and on the second.
\<close>

theorem batchUpsertUrls_repeated_loc:
  "batchUpsertUrls sha256 accepts 7 3 [entry ''http://t/x'', entry ''http://t/x''] now db_empty =
     (Some CardinalityViolation, db_empty, []) \<and>
   filter (\<lambda>u. u_projectId u = 7 \<and> locHash u = sha256 ''http://t/x'')
     (urls (fst (snd (batchUpsertUrls sha256 accepts 7 3 [entry ''http://t/x'', entry ''http://t/x''] later
        (fst (snd (batchUpsertUrls sha256 accepts 7 3 [entry ''http://t/x'', entry ''http://t/x''] now
           db_empty))))))) = []"
proof -
  have run: "batchUpsertUrls sha256 accepts 7 3 [entry ''http://t/x'', entry ''http://t/x''] t db_empty =
     (Some CardinalityViolation, db_empty, [])" for t
    unfolding batchUpsertUrls_def
    by (subst upsertFrom_short)
       (simp_all add: BATCH_SIZE_def insertUrls_def rowError_def entry_def truthy_def)
  have "urls db_empty = []" by (simp add: db_empty_def)
  then show ?thesis
    by (simp add: run)
qed

lemma batchUpsertUrls_twice_example:
  "map (\<lambda>u. (u_id u, loc u, sitemapId u, firstSeenAt u))
     (urls (fst (snd (batchUpsertUrls toy_hash accepts_all 7 4 [entry ''http://t/x'', entry ''http://t/y''] 60
        (fst (snd (batchUpsertUrls toy_hash accepts_all 7 3 [entry ''http://t/x'', entry ''http://t/y''] 50
           db_empty))))))) =
     [(1, ''http://t/x'', Some 4, 50), (2, ''http://t/y'', Some 4, 50)]"
  by code_simp

section \<open>Properties of the two sitemap parsers\<close>

lemma on_event_isIndex:
  "isIndex (on_event s e) \<longleftrightarrow>
     isIndex s \<or> (\<exists>name. e = OpenTag name \<and> toLowerCase name = ''sitemapindex'')"
  by (cases e) (auto simp: Let_def split: option.splits)

lemma foldl_on_event_isIndex:
  "isIndex (foldl on_event s events) \<longleftrightarrow>
     isIndex s \<or> (\<exists>name. OpenTag name \<in> set events \<and> toLowerCase name = ''sitemapindex'')"
  by (induction events arbitrary: s) (auto simp: on_event_isIndex)

lemma on_event_no_loc:
  assumes "\<forall>name. e = OpenTag name \<longrightarrow> toLowerCase name \<noteq> ''loc''"
    and "currentTag s \<noteq> ''loc''" and "currentLoc s = None"
  shows "currentTag (on_event s e) \<noteq> ''loc'' \<and> currentLoc (on_event s e) = None \<and>
         ps_urls (on_event s e) = ps_urls s \<and> childSitemaps (on_event s e) = childSitemaps s"
  using assms by (cases e) (auto simp: Let_def)

lemma foldl_on_event_no_loc:
  assumes "\<forall>name. OpenTag name \<in> set events \<longrightarrow> toLowerCase name \<noteq> ''loc''"
    and "currentTag s \<noteq> ''loc''" and "currentLoc s = None"
  shows "ps_urls (foldl on_event s events) = ps_urls s \<and>
         childSitemaps (foldl on_event s events) = childSitemaps s"
  using assms
proof (induction events arbitrary: s)
  case Nil
  show ?case by simp
next
  case (Cons e es)
  from Cons.prems have e: "\<forall>name. e = OpenTag name \<longrightarrow> toLowerCase name \<noteq> ''loc''"
    by auto
  note step = on_event_no_loc[OF e Cons.prems(2,3)]
  from Cons.prems(1) have "\<forall>name. OpenTag name \<in> set es \<longrightarrow> toLowerCase name \<noteq> ''loc''"
    by auto
  from Cons.IH[OF this, of "on_event s e"] step show ?case by simp
qed

lemma parseSitemap_without_loc:
  assumes "\<forall>name. OpenTag name \<in> set events \<longrightarrow> toLowerCase name \<noteq> ''loc''"
    and "parseSitemap events = Some (ty, us, cs)"
  shows "us = [] \<and> cs = []"
proof -
  have "ps_urls (foldl on_event parser_start events) = ps_urls parser_start \<and>
        childSitemaps (foldl on_event parser_start events) = childSitemaps parser_start"
    by (rule foldl_on_event_no_loc[OF assms(1)]) (simp_all add: parser_start_def)
  with assms(2) show ?thesis
    by (auto simp: parseSitemap_def Let_def parser_start_def split: if_splits)
qed

lemma parseSitemap_type:
  assumes "parseSitemap events = Some (ty, us, cs)"
  shows "ty = (if \<exists>name. OpenTag name \<in> set events \<and> toLowerCase name = ''sitemapindex''
               then INDEX else URLSET)"
  using assms
  by (auto simp: parseSitemap_def Let_def foldl_on_event_isIndex parser_start_def split: if_splits)

lemma feedLinks_origin:
  assumes "(l, m) \<in> set (feedLinks doc)"
  shows "l \<noteq> [] \<and> m = None \<and>
     (\<exists>node \<in> set (querySelectorAllChildOf [''item'', ''entry''] ''link'' doc).
        l = trim (textContent node) \<or>
        (trim (textContent node) = [] \<and> getAttribute ''href'' node = Some l))"
  using assms
  by (auto simp: feedLinks_def split: if_splits option.splits)

lemma feed_examples:
  "discover rss_doc = Urls [(''http://t/a'', None), (''http://t/b'', None)]"
  "discover atom_doc = Urls [(''http://t/c'', None)]"
  "parseSitemap rss_events = Some (URLSET, [], [])"
  by code_simp+

lemma feedLinks_explicit:
  "feedLinks doc =
     map (\<lambda>l. (l, None))
       (filter (\<lambda>l. l \<noteq> [])
          (map (\<lambda>node. if trim (textContent node) \<noteq> [] then trim (textContent node)
                        else (case getAttribute ''href'' node of None \<Rightarrow> [] | Some h \<Rightarrow> h))
               (querySelectorAllChildOf [''item'', ''entry''] ''link'' doc)))"
proof -
  have "concat (map (\<lambda>node.
            if trim (textContent node) \<noteq> [] then [(trim (textContent node), None :: string option)]
            else (case getAttribute ''href'' node of
                    None \<Rightarrow> []
                  | Some h \<Rightarrow> if h = [] then [] else [(h, None)])) nodes) =
        map (\<lambda>l. (l, None))
          (filter (\<lambda>l. l \<noteq> [])
             (map (\<lambda>node. if trim (textContent node) \<noteq> [] then trim (textContent node)
                           else (case getAttribute ''href'' node of None \<Rightarrow> [] | Some h \<Rightarrow> h))
                  nodes))" for nodes
    by (induction nodes) (simp_all split: option.splits)
  then show ?thesis by (simp add: feedLinks_def)
qed

lemma feedLinks_complete:
  assumes "node \<in> set (querySelectorAllChildOf [''item'', ''entry''] ''link'' doc)"
  shows "trim (textContent node) \<noteq> [] \<Longrightarrow> (trim (textContent node), None) \<in> set (feedLinks doc)"
    and "trim (textContent node) = [] \<Longrightarrow> getAttribute ''href'' node = Some h \<Longrightarrow> h \<noteq> [] \<Longrightarrow>
           (h, None) \<in> set (feedLinks doc)"
proof -
  let ?f = "\<lambda>node. if trim (textContent node) \<noteq> [] then [(trim (textContent node), None :: string option)]
        else (case getAttribute ''href'' node of
                None \<Rightarrow> []
              | Some h \<Rightarrow> if h = [] then [] else [(h, None)])"
  have "?f node \<in> set (map ?f (querySelectorAllChildOf [''item'', ''entry''] ''link'' doc))"
    using assms by (simp only: set_map) (rule imageI)
  then have "set (?f node) \<subseteq>
      \<Union> (set ` set (map ?f (querySelectorAllChildOf [''item'', ''entry''] ''link'' doc)))"
    by blast
  then have sub: "set (?f node) \<subseteq> set (feedLinks doc)"
    unfolding feedLinks_def set_concat .
  show "(trim (textContent node), None) \<in> set (feedLinks doc)" if "trim (textContent node) \<noteq> []"
    using sub that by simp
  show "(h, None) \<in> set (feedLinks doc)"
    if "trim (textContent node) = []" "getAttribute ''href'' node = Some h" "h \<noteq> []"
    using sub that by simp
qed

text \<open>
  C9 (as the code has it). \<^verbatim>\<open>SitemapStreamer\<close> treats a document that has an \<^verbatim>\<open>rss\<close> or a
  \<^verbatim>\<open>feed\<close> element, and neither a \<^verbatim>\<open>sitemapindex\<close> nor a \<^verbatim>\<open>urlset\<close> element, as a feed: the
  URLs it emits are, for the \<^verbatim>\<open>link\<close> children of \<^verbatim>\<open>item\<close> and \<^verbatim>\<open>entry\<close> elements taken in
  document order, the trimmed text of the element or, when that is empty, its \<^verbatim>\<open>href\<close>
  attribute, a link that has neither being passed over; these and no others, each
  without a \<^verbatim>\<open>lastmod\<close>. It reports no kind. The parser of the worker knows the types
  INDEX and URLSET only: the type is INDEX exactly when a \<^verbatim>\<open>sitemapindex\<close> tag was opened,
  and a document in which no \<^verbatim>\<open>loc\<close> tag is opened, as a feed is, yields no URL and no
  child sitemap.
\<close>

theorem feed_discovery:
  "(querySelector ''sitemapindex'' doc = None \<and> querySelector ''urlset'' doc = None \<and>
    (querySelector ''rss'' doc \<noteq> None \<or> querySelector ''feed'' doc \<noteq> None) \<longrightarrow>
      discover doc =
        Urls (map (\<lambda>l. (l, None))
               (filter (\<lambda>l. l \<noteq> [])
                  (map (\<lambda>node. if trim (textContent node) \<noteq> [] then trim (textContent node)
                                else (case getAttribute ''href'' node of None \<Rightarrow> [] | Some h \<Rightarrow> h))
                       (querySelectorAllChildOf [''item'', ''entry''] ''link'' doc)))) \<and>
      discover doc = Urls (feedLinks doc) \<and>
      (\<forall>node \<in> set (querySelectorAllChildOf [''item'', ''entry''] ''link'' doc).
         (trim (textContent node) \<noteq> [] \<longrightarrow> (trim (textContent node), None) \<in> set (feedLinks doc)) \<and>
         (\<forall>h. trim (textContent node) = [] \<and> getAttribute ''href'' node = Some h \<and> h \<noteq> [] \<longrightarrow>
               (h, None) \<in> set (feedLinks doc))) \<and>
      (\<forall>(l, m) \<in> set (feedLinks doc).
         l \<noteq> [] \<and>
         (\<exists>node \<in> set (querySelectorAllChildOf [''item'', ''entry''] ''link'' doc).
            l = trim (textContent node) \<or>
            (trim (textContent node) = [] \<and> getAttribute ''href'' node = Some l)))) \<and>
   (parseSitemap events = Some (ty, us, cs) \<longrightarrow>
      (ty = INDEX \<longleftrightarrow>
         (\<exists>name. OpenTag name \<in> set events \<and> toLowerCase name = ''sitemapindex'')) \<and>
      (ty \<noteq> INDEX \<longrightarrow> ty = URLSET) \<and>
      ((\<forall>name. OpenTag name \<in> set events \<longrightarrow> toLowerCase name \<noteq> ''loc'') \<longrightarrow>
         us = [] \<and> cs = []))"
proof (intro conjI impI)
  assume a: "querySelector ''sitemapindex'' doc = None \<and> querySelector ''urlset'' doc = None \<and>
    (querySelector ''rss'' doc \<noteq> None \<or> querySelector ''feed'' doc \<noteq> None)"
  then show feed: "discover doc = Urls (feedLinks doc)"
    by (auto simp: discover_def)
  then show "discover doc =
        Urls (map (\<lambda>l. (l, None))
               (filter (\<lambda>l. l \<noteq> [])
                  (map (\<lambda>node. if trim (textContent node) \<noteq> [] then trim (textContent node)
                                else (case getAttribute ''href'' node of None \<Rightarrow> [] | Some h \<Rightarrow> h))
                       (querySelectorAllChildOf [''item'', ''entry''] ''link'' doc))))"
    by (simp add: feedLinks_explicit)
next
  show "\<forall>node \<in> set (querySelectorAllChildOf [''item'', ''entry''] ''link'' doc).
         (trim (textContent node) \<noteq> [] \<longrightarrow> (trim (textContent node), None) \<in> set (feedLinks doc)) \<and>
         (\<forall>h. trim (textContent node) = [] \<and> getAttribute ''href'' node = Some h \<and> h \<noteq> [] \<longrightarrow>
               (h, None) \<in> set (feedLinks doc))"
    using feedLinks_complete[of _ doc] by blast
next
  show "\<forall>(l, m) \<in> set (feedLinks doc).
         l \<noteq> [] \<and>
         (\<exists>node \<in> set (querySelectorAllChildOf [''item'', ''entry''] ''link'' doc).
            l = trim (textContent node) \<or>
            (trim (textContent node) = [] \<and> getAttribute ''href'' node = Some l))"
    using feedLinks_origin[of _ _ doc] by blast
next
  assume p: "parseSitemap events = Some (ty, us, cs)"
  from parseSitemap_type[OF p]
  show "ty = INDEX \<longleftrightarrow>
         (\<exists>name. OpenTag name \<in> set events \<and> toLowerCase name = ''sitemapindex'')"
    by (simp split: if_splits)
  show "ty = URLSET" if "ty \<noteq> INDEX"
    using that by (cases ty) simp_all
  show "us = []" "cs = []"
    if "\<forall>name. OpenTag name \<in> set events \<longrightarrow> toLowerCase name \<noteq> ''loc''"
    using parseSitemap_without_loc[OF that p] by simp_all
qed

theorem feed_discovery_witness:
  "discover rss_doc = Urls (feedLinks rss_doc) \<and>
   feedLinks rss_doc = [(''http://t/a'', None), (''http://t/b'', None)] \<and>
   map (\<lambda>node. trim (textContent node)) (querySelectorAllChildOf [''item'', ''entry''] ''link'' rss_doc) =
     [''http://t/a'', ''http://t/b''] \<and>
   discover atom_doc = Urls [(''http://t/c'', None)] \<and>
   parseSitemap rss_events = Some (URLSET, [], []) \<and>
   \<not> (\<exists>name. OpenTag name \<in> set rss_events \<and> toLowerCase name = ''sitemapindex'')"
proof -
  have q: "querySelector ''sitemapindex'' rss_doc = None \<and> querySelector ''urlset'' rss_doc = None \<and>
    (querySelector ''rss'' rss_doc \<noteq> None \<or> querySelector ''feed'' rss_doc \<noteq> None)"
    by code_simp
  have links: "map (\<lambda>node. trim (textContent node))
      (querySelectorAllChildOf [''item'', ''entry''] ''link'' rss_doc) = [''http://t/a'', ''http://t/b'']"
    by code_simp
  note inst = feed_discovery[where doc = rss_doc and events = rss_events and ty = URLSET
      and us = "[]" and cs = "[]"]
  from inst q have d: "discover rss_doc = Urls (feedLinks rss_doc)"
    by blast
  from inst feed_examples(3)
  have i: "\<not> (\<exists>name. OpenTag name \<in> set rss_events \<and> toLowerCase name = ''sitemapindex'')"
    by blast
  from d feed_examples(1) have "feedLinks rss_doc = [(''http://t/a'', None), (''http://t/b'', None)]"
    by simp
  with d i links feed_examples(2,3) show ?thesis by blast
qed

text \<open>
  The worker's parser on a well-formed RSS feed with two items: type URLSET, no URL.
\<close>

theorem parseSitemap_rss_counterexample:
  "parseSitemap rss_events = Some (URLSET, [], [])"
  by code_simp

declare fetchSitemapRecursive.simps [simp del]

section \<open>Properties of the recursive discovery\<close>

lemma fetchSitemapRecursive_distinct:
  "distinct visited \<Longrightarrow> distinct (snd (fetchSitemapRecursive site pending visited allUrls))"
proof (induction site pending visited allUrls rule: fetchSitemapRecursive.induct)
  case (1 site visited allUrls)
  then show ?case by (simp add: fetchSitemapRecursive.simps)
next
  case (2 site url pending visited allUrls)
  show ?case
  proof (cases "url \<in> set visited")
    case True
    with 2 show ?thesis by (simp add: fetchSitemapRecursive.simps)
  next
    case False
    with "2.prems" have d: "distinct (visited @ [url])" by simp
    show ?thesis
    proof (cases "visit site url")
      case None
      with False d "2.IH" show ?thesis
        by (auto simp: fetchSitemapRecursive.simps)
    next
      case (Some found)
      with False d "2.IH" show ?thesis
        by (cases found) (auto simp: fetchSitemapRecursive.simps)
    qed
  qed
qed

lemma nth_not_in_take:
  "distinct names \<Longrightarrow> k < length names \<Longrightarrow> names ! k \<notin> set (take k names)"
  by (auto simp: in_set_conv_nth nth_eq_iff_index_eq)

lemma fetchSitemapRecursive_chain:
  assumes "distinct names"
    and "\<forall>i. Suc i < length names \<longrightarrow> visit site (names ! i) = Some (SitemapIndex [names ! Suc i])"
    and "visit site (last names) = Some (Urls found)"
    and "k < length names"
  shows "fetchSitemapRecursive site [names ! k] (take k names) allUrls = (Some (allUrls @ found), names)"
  using assms(4)
proof (induction "length names - Suc k" arbitrary: k)
  case 0
  then have last: "Suc k = length names" by simp
  then have "names ! k = last names"
    by (metis diff_Suc_1 last_conv_nth length_0_conv nat.simps(3))
  with assms(3) have v: "visit site (names ! k) = Some (Urls found)" by simp
  have whole: "take k names @ [names ! k] = names"
    using last by (metis lessI order_refl take_Suc_conv_app_nth take_all)
  from nth_not_in_take[OF assms(1) "0.prems"] v whole show ?case
    by (simp add: fetchSitemapRecursive.simps)
next
  case (Suc n)
  then have more: "Suc k < length names" and n: "n = length names - Suc (Suc k)" by simp_all
  from assms(2) more have v: "visit site (names ! k) = Some (SitemapIndex [names ! Suc k])" by simp
  have step: "take k names @ [names ! k] = take (Suc k) names"
    using Suc.prems by (simp add: take_Suc_conv_app_nth)
  from Suc.hyps(1)[OF n more] nth_not_in_take[OF assms(1) Suc.prems] v step show ?case
    by (simp add: fetchSitemapRecursive.simps)
qed

lemma fetchSitemapRecursive_web_table:
  "fetchSitemapRecursive_web (visit site) pending visited allUrls =
     Some (fetchSitemapRecursive site pending visited allUrls)"
proof (induction site pending visited allUrls rule: fetchSitemapRecursive.induct)
  case (1 site visited allUrls)
  show ?case
    by (subst fetchSitemapRecursive_web.simps) (simp add: fetchSitemapRecursive.simps)
next
  case (2 site url pending visited allUrls)
  show ?case
  proof (cases "url \<in> set visited")
    case True
    with 2 show ?thesis
      by (subst fetchSitemapRecursive_web.simps) (simp add: fetchSitemapRecursive.simps)
  next
    case False
    show ?thesis
    proof (cases "visit site url")
      case None
      with False "2.IH" show ?thesis
        by (subst fetchSitemapRecursive_web.simps) (auto simp: fetchSitemapRecursive.simps)
    next
      case (Some found)
      with False "2.IH" show ?thesis
        by (subst fetchSitemapRecursive_web.simps)
           (cases found; auto simp: fetchSitemapRecursive.simps)
    qed
  qed
qed

lemma fetchSitemapRecursive_web_endless:
  assumes run: "fetchSitemapRecursive_web web pending visited allUrls = Some result"
  shows "\<not> (web = web_endless \<and> (\<exists>url. pending = [url] \<and> (\<forall>v \<in> set visited. length v < length url)))"
proof (rule fetchSitemapRecursive_web.raw_induct[where P = "\<lambda>web pending visited allUrls result.
         \<not> (web = web_endless \<and> (\<exists>url. pending = [url] \<and> (\<forall>v \<in> set visited. length v < length url)))",
       OF _ run], goal_cases)
  case (1 f web pending visited allUrls result)
  show ?case
  proof
    assume "web = web_endless \<and> (\<exists>url. pending = [url] \<and> (\<forall>v \<in> set visited. length v < length url))"
    then obtain url where p: "pending = [url]" and shorter: "\<forall>v \<in> set visited. length v < length url"
      and w: "web = web_endless" by blast
    from shorter have fresh: "url \<notin> set visited" by auto
    from 1(2) p fresh w
    have next_call: "f web_endless [url @ ''/a''] (visited @ [url]) allUrls = Some result"
      by (simp add: web_endless_def)
    from shorter have "\<forall>v \<in> set (visited @ [url]). length v < length (url @ ''/a'')"
      by auto
    with 1(1)[OF next_call] show False by blast
  qed
qed

lemma streamParse_web_endless: "streamParse_web web_endless root = None"
proof (cases "streamParse_web web_endless root")
  case None
  then show ?thesis .
next
  case (Some result)
  then have "fetchSitemapRecursive_web web_endless [root] [] [] = Some result"
    by (simp add: streamParse_web_def)
  from fetchSitemapRecursive_web_endless[OF this] show ?thesis by simp
qed

lemma cyclic_runs:
  "streamParse cyclic_site ''http://t/sm1.xml'' = (Some [], [''http://t/sm1.xml'', ''http://t/sm2.xml''])"
  by code_simp

lemma chain_runs:
  "length chain_names = 12"
  "distinct chain_names"
  "hd chain_names = ''http://t/sma.xml''"
  "last chain_names = ''http://t/sml.xml''"
  "list_all (\<lambda>i. visit chain_site (chain_names ! i) = Some (SitemapIndex [chain_names ! Suc i])) [0..<11]"
  "visit chain_site (last chain_names) = Some (Urls [(''http://t/page'', None)])"
  by code_simp+

text \<open>
  C5 (as the code has it). \<^verbatim>\<open>SitemapStreamer.streamParse\<close> terminates on every finite web
  of sitemap references, cyclic or not, and fetches no URL twice in a run, because the
  URLs visited are recorded in \<^verbatim>\<open>visitedSitemaps\<close>. Its recursion has no cap: a chain of
  sitemap indexes, each listing the next, is followed to the urlset at its end however
  long it is, and the URLs of that urlset are returned; on the endless chain the run
  does not return. The depth of 10 bounds what a scan job of \<^verbatim>\<open>sitemapScannerWorker\<close>
  asks of the queue: a job asks for child jobs only while its depth is below 10, for one
  job per child sitemap listed (a child listed twice is asked for twice) and at its own
  depth plus one, so that no job is asked for at a depth above 10.
\<close>

theorem discovery_terminates:
  "streamParse_web (visit site) root = Some (streamParse site root) \<and>
   distinct (snd (streamParse site root)) \<and>
   streamParse_web web_endless root = None \<and>
   (distinct names \<and> names \<noteq> [] \<and>
    (\<forall>i. Suc i < length names \<longrightarrow> visit site (names ! i) = Some (SitemapIndex [names ! Suc i])) \<and>
    visit site (last names) = Some (Urls found) \<longrightarrow>
      streamParse site (hd names) = (Some found, names)) \<and>
   list_all (\<lambda>(childUrl, k). k = depth + 1 \<and> k \<le> 10) (childJobsRequested children depth) \<and>
   (children \<noteq> [] \<and> depth < 10 \<longrightarrow> map fst (childJobsRequested children depth) = children) \<and>
   (10 \<le> depth \<longrightarrow> childJobsRequested children depth = [])"
proof (intro conjI impI)
  show "streamParse_web (visit site) root = Some (streamParse site root)"
    by (simp add: streamParse_web_def streamParse_def fetchSitemapRecursive_web_table)
next
  show "distinct (snd (streamParse site root))"
    unfolding streamParse_def by (rule fetchSitemapRecursive_distinct) simp
next
  show "streamParse_web web_endless root = None"
    by (rule streamParse_web_endless)
next
  assume a: "distinct names \<and> names \<noteq> [] \<and>
    (\<forall>i. Suc i < length names \<longrightarrow> visit site (names ! i) = Some (SitemapIndex [names ! Suc i])) \<and>
    visit site (last names) = Some (Urls found)"
  then have "0 < length names" by simp
  from fetchSitemapRecursive_chain[of names site found 0 "[]", OF _ _ _ this] a
  show "streamParse site (hd names) = (Some found, names)"
    by (simp add: streamParse_def hd_conv_nth)
next
  show "list_all (\<lambda>(childUrl, k). k = depth + 1 \<and> k \<le> 10) (childJobsRequested children depth)"
    by (auto simp: childJobsRequested_def MAX_RECURSION_DEPTH_def list_all_iff)
next
  assume "children \<noteq> [] \<and> depth < 10"
  then show "map fst (childJobsRequested children depth) = children"
    by (simp add: childJobsRequested_def MAX_RECURSION_DEPTH_def o_def)
next
  assume "10 \<le> depth"
  then show "childJobsRequested children depth = []"
    by (simp add: childJobsRequested_def MAX_RECURSION_DEPTH_def)
qed

theorem discovery_terminates_witness:
  "streamParse_web (visit cyclic_site) ''http://t/sm1.xml'' =
     Some (Some [], [''http://t/sm1.xml'', ''http://t/sm2.xml'']) \<and>
   distinct (snd (streamParse cyclic_site ''http://t/sm1.xml'')) \<and>
   streamParse chain_site ''http://t/sma.xml'' = (Some [(''http://t/page'', None)], chain_names) \<and>
   length chain_names = 12 \<and>
   map fst (childJobsRequested [''http://t/sm2.xml'', ''http://t/sm2.xml''] 9) =
     [''http://t/sm2.xml'', ''http://t/sm2.xml''] \<and>
   childJobsRequested [''http://t/sm2.xml'', ''http://t/sm2.xml''] 10 = []"
proof -
  from discovery_terminates[of cyclic_site "''http://t/sm1.xml''"]
  have cyc: "distinct (snd (streamParse cyclic_site ''http://t/sm1.xml''))"
    and ret: "streamParse_web (visit cyclic_site) ''http://t/sm1.xml'' =
      Some (streamParse cyclic_site ''http://t/sm1.xml'')"
    by blast+
  have links: "\<forall>i. Suc i < length chain_names \<longrightarrow>
      visit chain_site (chain_names ! i) = Some (SitemapIndex [chain_names ! Suc i])"
    using chain_runs(5) by (simp add: chain_runs(1) list_all_iff)
  have ne: "chain_names \<noteq> []"
    using chain_runs(1) by auto
  note inst = discovery_terminates[where site = chain_site and names = chain_names
      and found = "[(''http://t/page'', None)]"
      and children = "[''http://t/sm2.xml'', ''http://t/sm2.xml'']"]
  from inst chain_runs(2) ne links chain_runs(6)
  have "streamParse chain_site (hd chain_names) = (Some [(''http://t/page'', None)], chain_names)"
    by blast
  then have chain: "streamParse chain_site ''http://t/sma.xml'' =
      (Some [(''http://t/page'', None)], chain_names)"
    by (simp add: chain_runs(3))
  from inst[where depth = 9]
  have nine: "map fst (childJobsRequested [''http://t/sm2.xml'', ''http://t/sm2.xml''] 9) =
     [''http://t/sm2.xml'', ''http://t/sm2.xml'']"
    by simp
  from inst[where depth = 10]
  have ten: "childJobsRequested [''http://t/sm2.xml'', ''http://t/sm2.xml''] 10 = []"
    by simp
  from ret have "streamParse_web (visit cyclic_site) ''http://t/sm1.xml'' =
     Some (Some [], [''http://t/sm1.xml'', ''http://t/sm2.xml''])"
    by (simp add: cyclic_runs)
  with cyc chain nine ten chain_runs(1) show ?thesis by blast
qed

lemma chain_run:
  "streamParse chain_site ''http://t/sma.xml'' =
     (Some [(''http://t/page'', None)],
      [''http://t/sma.xml'', ''http://t/smb.xml'', ''http://t/smc.xml'', ''http://t/smd.xml'',
       ''http://t/sme.xml'', ''http://t/smf.xml'', ''http://t/smg.xml'', ''http://t/smh.xml'',
       ''http://t/smi.xml'', ''http://t/smj.xml'', ''http://t/smk.xml'', ''http://t/sml.xml''])"
  "map_of chain_site ''http://t/smk.xml'' = Some (Page False (index_doc ''http://t/sml.xml''))"
  "map_of chain_site ''http://t/sml.xml'' = Some (Page False (urlset_doc ''http://t/page''))"
  by code_simp+

text \<open>
  The chain of twelve sitemaps under \<^verbatim>\<open>streamParse\<close>: all twelve are fetched, the last of
  them eleven levels below the root, and its page is returned; a recursion capped at
  depth 10 would not reach it. And the endless chain, on which the run does not return.
\<close>

theorem streamParse_depth_counterexample:
  "streamParse chain_site ''http://t/sma.xml'' =
     (Some [(''http://t/page'', None)],
      [''http://t/sma.xml'', ''http://t/smb.xml'', ''http://t/smc.xml'', ''http://t/smd.xml'',
       ''http://t/sme.xml'', ''http://t/smf.xml'', ''http://t/smg.xml'', ''http://t/smh.xml'',
       ''http://t/smi.xml'', ''http://t/smj.xml'', ''http://t/smk.xml'', ''http://t/sml.xml'']) \<and>
   map_of chain_site ''http://t/smk.xml'' = Some (Page False (index_doc ''http://t/sml.xml'')) \<and>
   map_of chain_site ''http://t/sml.xml'' = Some (Page False (urlset_doc ''http://t/page'')) \<and>
   web_endless ''http://t/sm'' = Some (SitemapIndex [''http://t/sm/a'']) \<and>
   streamParse_web web_endless ''http://t/sm'' = None"
  using chain_run streamParse_web_endless[of "''http://t/sm''"]
  by (simp add: web_endless_def)

section \<open>Properties of the live event bus\<close>

lemma send_simps [simp]:
  "readyState (sockets (send dat inst ws) w) = readyState (sockets inst w)"
  "connections (send dat inst ws) = connections inst"
  "frames (sockets (send dat inst ws) w) =
     (if w = ws then frames (sockets inst w) @ [dat] else frames (sockets inst w))"
  by (simp_all add: send_def)

lemma sendToOpen_keeps [simp]:
  "readyState (sockets (sendToOpen dat wss inst) w) = readyState (sockets inst w)"
  "connections (sendToOpen dat wss inst) = connections inst"
  by (induction wss arbitrary: inst) (simp_all add: sendToOpen_def)

lemma sendToOpen_frames:
  "distinct wss \<Longrightarrow>
   frames (sockets (sendToOpen dat wss inst) w) =
     (if w \<in> set wss \<and> readyState (sockets inst w) = OPEN
      then frames (sockets inst w) @ [dat] else frames (sockets inst w))"
proof (induction wss arbitrary: inst)
  case Nil
  show ?case by (simp add: sendToOpen_def)
next
  case (Cons a wss)
  let ?i = "if readyState (sockets inst a) = OPEN then send dat inst a else inst"
  have step: "sendToOpen dat (a # wss) inst = sendToOpen dat wss ?i"
    by (simp add: sendToOpen_def)
  from Cons.prems have d: "distinct wss" and a: "a \<notin> set wss" by simp_all
  show ?case
    unfolding step Cons.IH[OF d] using a by auto
qed

lemma replace_ws_prefix: "replace ''ws:'' [] (''ws:'' @ key) = key"
  by simp

lemma broadcastToProject_some:
  assumes "connections inst (organizationId @ '':'' @ pid) = Some projectConnections"
    and "projectConnections \<noteq> []"
  shows "broadcastToProject stringify organizationId pid message inst =
     (sendToOpen (stringify message) projectConnections inst,
      [(''ws:'' @ organizationId @ '':'' @ pid, stringify message)])"
  using assms by (simp add: broadcastToProject_def Let_def)

lemma broadcastAndReceive_some:
  assumes "connections inst (organizationId @ '':'' @ pid) = Some projectConnections"
    and "projectConnections \<noteq> []"
  shows "broadcastAndReceive stringify organizationId pid message inst =
     sendToOpen (stringify message) projectConnections
       (sendToOpen (stringify message) projectConnections inst)"
  unfolding broadcastAndReceive_def broadcastToProject_some[OF assms]
  using assms(1) by (simp add: onRedisMessage_def matches_ws_pattern_def)

text \<open>
  C10. With a broker that delivers a published message to the publishing instance as
  well, an event broadcast on an instance reaches each open socket of the project twice:
  \<^verbatim>\<open>broadcastToProject\<close> sends it once, and the callback of the \<^verbatim>\<open>ws:*\<close> subscription sends
  it again when the instance receives its own message. Sockets that are not open
  receive nothing.
\<close>

theorem broadcast_delivered_twice:
  assumes "connections inst (organizationId @ '':'' @ pid) = Some projectConnections"
    and "distinct projectConnections"
    and "ws \<in> set projectConnections"
  shows "frames (sockets (fst (broadcastToProject stringify organizationId pid message inst)) ws) =
           (if readyState (sockets inst ws) = OPEN
            then frames (sockets inst ws) @ [stringify message]
            else frames (sockets inst ws)) \<and>
         snd (broadcastToProject stringify organizationId pid message inst) =
           [(''ws:'' @ organizationId @ '':'' @ pid, stringify message)] \<and>
         frames (sockets (broadcastAndReceive stringify organizationId pid message inst) ws) =
           (if readyState (sockets inst ws) = OPEN
            then frames (sockets inst ws) @ [stringify message, stringify message]
            else frames (sockets inst ws))"
proof -
  from assms(3) have ne: "projectConnections \<noteq> []" by auto
  show ?thesis
    unfolding broadcastAndReceive_some[OF assms(1) ne] broadcastToProject_some[OF assms(1) ne]
    using assms(3) by (simp add: sendToOpen_frames[OF assms(2)])
qed

theorem broadcast_delivered_twice_witness:
  "frames (sockets (broadcastAndReceive show_message ''org1'' ''p1'' log_message two_sockets) 1) =
     [show_message log_message, show_message log_message] \<and>
   frames (sockets (broadcastAndReceive show_message ''org1'' ''p1'' log_message two_sockets) 2) = []"
proof -
  have c: "connections two_sockets (''org1'' @ '':'' @ ''p1'') = Some [1, 2]"
    by (simp add: two_sockets_def)
  have d: "distinct [1, 2 :: nat]" by simp
  have s: "readyState (sockets two_sockets 1) = OPEN" "readyState (sockets two_sockets 2) = CLOSED"
    "frames (sockets two_sockets 1) = []" "frames (sockets two_sockets 2) = []"
    by (simp_all add: two_sockets_def)
  from broadcast_delivered_twice[OF c d, of 1 show_message log_message]
       broadcast_delivered_twice[OF c d, of 2 show_message log_message] s
  show ?thesis by simp
qed

end
